theory Spec2Isabelle
  imports Main "HOL-Library.Word"
begin

unbundle bit_operations_syntax

section \<open>Bytes, machine integers and byte order\<close>

text \<open>
  A byte is a \<^typ>\<open>char\<close> (eight bits), so file names, file contents and the bytes on
  the wire are all of type \<^typ>\<open>string\<close>. \<open>uint32_t\<close> and \<open>uint64_t\<close> are words.
  The two programs choose their byte-order code with
  \<^verbatim>\<open>#if __BYTE_ORDER == __LITTLE_ENDIAN\<close>; the host's byte order is a parameter here.
\<close>

type_synonym u32 = "32 word"
type_synonym u64 = "64 word"

datatype byte_order = LittleEndian | BigEndian

text \<open>
  \<open>htonl\<close> and \<open>ntohl\<close> come from the C library: the identity on a big-endian host, the
  reversal of the four bytes on a little-endian one.
\<close>

definition bswap32 :: "u32 \<Rightarrow> u32" where
  "bswap32 x = push_bit 24 (take_bit 8 x) OR push_bit 16 (take_bit 8 (drop_bit 8 x))
               OR push_bit 8 (take_bit 8 (drop_bit 16 x)) OR take_bit 8 (drop_bit 24 x)"

definition htonl :: "byte_order \<Rightarrow> u32 \<Rightarrow> u32" where
  "htonl h x = (case h of LittleEndian \<Rightarrow> bswap32 x | BigEndian \<Rightarrow> x)"

definition ntohl :: "byte_order \<Rightarrow> u32 \<Rightarrow> u32" where
  "ntohl h x = (case h of LittleEndian \<Rightarrow> bswap32 x | BigEndian \<Rightarrow> x)"

text \<open>\<open>htonll\<close> and \<open>ntohll\<close> of \<open>client.c\<close> (lines 43 to 58).\<close>

definition htonll_client :: "byte_order \<Rightarrow> u64 \<Rightarrow> u64" where
  "htonll_client h v = (case h of
       LittleEndian \<Rightarrow> push_bit 32 (ucast (htonl h (ucast (v AND 0xFFFFFFFF))))
                        OR ucast (htonl h (ucast (drop_bit 32 v)))
     | BigEndian \<Rightarrow> v)"

definition ntohll_client :: "byte_order \<Rightarrow> u64 \<Rightarrow> u64" where
  "ntohll_client h v = (case h of
       LittleEndian \<Rightarrow> push_bit 32 (ucast (ntohl h (ucast (v AND 0xFFFFFFFF))))
                        OR ucast (ntohl h (ucast (drop_bit 32 v)))
     | BigEndian \<Rightarrow> v)"

text \<open>\<open>htonll\<close> and \<open>ntohll\<close> of \<open>server.c\<close> (lines 19 to 33).\<close>

definition htonll_server :: "byte_order \<Rightarrow> u64 \<Rightarrow> u64" where
  "htonll_server h v = (case h of
       LittleEndian \<Rightarrow> push_bit 32 (ucast (htonl h (ucast (v AND 0xFFFFFFFF))))
                        OR ucast (htonl h (ucast (drop_bit 32 v)))
     | BigEndian \<Rightarrow> v)"

definition ntohll_server :: "byte_order \<Rightarrow> u64 \<Rightarrow> u64" where
  "ntohll_server h v = (case h of
       LittleEndian \<Rightarrow> push_bit 32 (ucast (ntohl h (ucast (v AND 0xFFFFFFFF))))
                        OR ucast (ntohl h (ucast (drop_bit 32 v)))
     | BigEndian \<Rightarrow> v)"

text \<open>
  Memory: \<open>send_all(sock, &x, sizeof x)\<close> sends the bytes of \<open>x\<close> as the host stores them,
  and \<open>recv_all(sock, &x, sizeof x)\<close> fills \<open>x\<close> the same way. \<open>byte_at w i\<close> is the byte
  of significance \<open>i\<close>; a little-endian host stores the least significant byte first.
\<close>

definition byte_at :: "'a::len word \<Rightarrow> nat \<Rightarrow> char" where
  "byte_at w i = char_of (unat (drop_bit (8 * i) w))"

fun le_word :: "string \<Rightarrow> 'a::len word" where
  "le_word [] = 0"
| "le_word (c # cs) = of_char c OR push_bit 8 (le_word cs)"

definition mem32 :: "byte_order \<Rightarrow> u32 \<Rightarrow> string" where
  "mem32 h w = (case h of LittleEndian \<Rightarrow> map (byte_at w) [0..<4]
                        | BigEndian \<Rightarrow> rev (map (byte_at w) [0..<4]))"

definition mem64 :: "byte_order \<Rightarrow> u64 \<Rightarrow> string" where
  "mem64 h w = (case h of LittleEndian \<Rightarrow> map (byte_at w) [0..<8]
                        | BigEndian \<Rightarrow> rev (map (byte_at w) [0..<8]))"

definition load32 :: "byte_order \<Rightarrow> string \<Rightarrow> u32" where
  "load32 h bs = (case h of LittleEndian \<Rightarrow> le_word bs | BigEndian \<Rightarrow> le_word (rev bs))"

definition load64 :: "byte_order \<Rightarrow> string \<Rightarrow> u64" where
  "load64 h bs = (case h of LittleEndian \<Rightarrow> le_word bs | BigEndian \<Rightarrow> le_word (rev bs))"

text \<open>Network byte order: the most significant byte first.\<close>

definition be32 :: "u32 \<Rightarrow> string" where
  "be32 v = rev (map (byte_at v) [0..<4])"

definition be64 :: "u64 \<Rightarrow> string" where
  "be64 v = rev (map (byte_at v) [0..<8])"

section \<open>The reliable stream primitives, over the system calls\<close>

text \<open>
  \<open>send_all\<close> and \<open>recv_all\<close> loop over \<open>send\<close> and \<open>recv\<close>. What the kernel does at
  each call is given by a trace: \<open>Bytes k\<close> is a call that finds \<open>k\<close> bytes ready (room for
  \<open>k\<close> bytes when sending) and returns \<open>min k requested\<close> without touching \<open>errno\<close>, so
  \<open>Bytes 0\<close> is the zero-length read of a closed stream; \<open>Error e\<close> is a call that returns
  \<open>-1\<close> and sets \<open>errno\<close> to \<open>e\<close>. \<open>EWOULDBLOCK\<close> is \<open>EAGAIN\<close> (they are one value on
  Linux). A function returns \<open>Some (r, moved)\<close>: its return value and the number of
  bytes it moved; \<open>None\<close> says that the call has not returned when the trace ends.
\<close>

datatype errno = EINTR | EAGAIN | EOTHER

datatype sysret = Bytes nat | Error errno

text \<open>\<open>send_all\<close> of \<open>client.c\<close> (lines 61 to 81); \<open>left\<close> is the loop variable.\<close>

fun send_all_client_loop :: "nat \<Rightarrow> nat \<Rightarrow> sysret list \<Rightarrow> (int \<times> nat) option" where
  "send_all_client_loop len left [] = (if left > 0 then None else Some (int len, len - left))"
| "send_all_client_loop len left (r # rs) =
     (if left > 0 then
        (case r of
           Error e \<Rightarrow>
             if e = EINTR then send_all_client_loop len left rs
             else if e = EAGAIN then send_all_client_loop len left rs
             else Some (- 1, len - left)
         | Bytes k \<Rightarrow>
             if min k left = 0 then Some (- 1, len - left)
             else send_all_client_loop len (left - min k left) rs)
      else Some (int len, len - left))"

definition send_all_client :: "nat \<Rightarrow> sysret list \<Rightarrow> (int \<times> nat) option" where
  "send_all_client len tr = send_all_client_loop len len tr"

text \<open>\<open>recv_all\<close> of \<open>client.c\<close> (lines 84 to 106).\<close>

fun recv_all_client_loop :: "nat \<Rightarrow> nat \<Rightarrow> sysret list \<Rightarrow> (int \<times> nat) option" where
  "recv_all_client_loop len left [] = (if left > 0 then None else Some (int len, len - left))"
| "recv_all_client_loop len left (r # rs) =
     (if left > 0 then
        (case r of
           Error e \<Rightarrow>
             if e = EINTR then recv_all_client_loop len left rs
             else if e = EAGAIN then recv_all_client_loop len left rs
             else Some (- 1, len - left)
         | Bytes k \<Rightarrow>
             if min k left = 0 then Some (- 1, len - left)
             else recv_all_client_loop len (left - min k left) rs)
      else Some (int len, len - left))"

definition recv_all_client :: "nat \<Rightarrow> sysret list \<Rightarrow> (int \<times> nat) option" where
  "recv_all_client len tr = recv_all_client_loop len len tr"

text \<open>
  \<open>send_all\<close> and \<open>recv_all\<close> of \<open>server.c\<close> (lines 36 to 63). They test \<open>errno\<close> whenever
  the call returns \<open>n <= 0\<close>, so the value \<open>errno\<close> holds is part of the state: \<open>en\<close> is
  \<open>errno\<close> (\<open>None\<close> when it holds no error), \<open>tot\<close> the loop variable \<open>total\<close>.
\<close>

fun send_all_server_loop :: "errno option \<Rightarrow> nat \<Rightarrow> nat \<Rightarrow> sysret list \<Rightarrow> (int \<times> nat) option" where
  "send_all_server_loop en len tot [] = (if tot < len then None else Some (int tot, tot))"
| "send_all_server_loop en len tot (r # rs) =
     (if tot < len then
        (case r of
           Error e \<Rightarrow>
             if e = EINTR then send_all_server_loop (Some e) len tot rs
             else Some (- 1, tot)
         | Bytes k \<Rightarrow>
             if min k (len - tot) = 0 then
               (if en = Some EINTR then send_all_server_loop en len tot rs
                else Some (- 1, tot))
             else send_all_server_loop en len (tot + min k (len - tot)) rs)
      else Some (int tot, tot))"

definition send_all_server :: "errno option \<Rightarrow> nat \<Rightarrow> sysret list \<Rightarrow> (int \<times> nat) option" where
  "send_all_server en len tr = send_all_server_loop en len 0 tr"

fun recv_all_server_loop :: "errno option \<Rightarrow> nat \<Rightarrow> nat \<Rightarrow> sysret list \<Rightarrow> (int \<times> nat) option" where
  "recv_all_server_loop en len tot [] = (if tot < len then None else Some (int tot, tot))"
| "recv_all_server_loop en len tot (r # rs) =
     (if tot < len then
        (case r of
           Error e \<Rightarrow>
             if e = EINTR then recv_all_server_loop (Some e) len tot rs
             else Some (- 1, tot)
         | Bytes k \<Rightarrow>
             if min k (len - tot) = 0 then
               (if en = Some EINTR then recv_all_server_loop en len tot rs
                else Some (- 1, tot))
             else recv_all_server_loop en len (tot + min k (len - tot)) rs)
      else Some (int tot, tot))"

definition recv_all_server :: "errno option \<Rightarrow> nat \<Rightarrow> sysret list \<Rightarrow> (int \<times> nat) option" where
  "recv_all_server en len tr = recv_all_server_loop en len 0 tr"

section \<open>Environment of a transfer: faults, files, connection\<close>

text \<open>
  Every library call whose result the source tests can fail. \<open>fails E op k\<close> says that
  the \<open>k\<close>-th call of kind \<open>op\<close> made by the running function fails (calls are counted from
  0 in program order; inside a loop the count advances with the iterations). Where a
  function opens its file with \<open>fopen(filename, "r+b")\<close> and, when that fails, with
  \<open>fopen(filename, "wb+")\<close>, \<open>fails E OpFopen 0\<close> says that the first call fails although the
  file exists, and \<open>fails E OpFopen 1\<close> that the second call fails. The source discards the
  result of \<open>fflush\<close> on the ledger's stream and renames the file all the same: \<open>OpFflush\<close>
  failing says that this call fails, and the bytes of the stream's buffer are then not
  written to the file. The other calls whose result the source discards (\<open>fsync\<close>, \<open>fclose\<close>,
  \<open>unlink\<close>, \<open>close\<close>, and \<open>fflush\<close> on the transferred file) are taken to succeed.
\<close>

datatype sysop = OpFopen | OpFopenTmp | OpStat | OpFstat | OpFtruncate | OpFseeko | OpFread
  | OpFwrite | OpFprintf | OpFflush | OpRename | OpSend | OpRecv

record env =
  host :: byte_order
  fails :: "sysop \<Rightarrow> nat \<Rightarrow> bool"

text \<open>The file system maps a path to the bytes of the file there.\<close>

type_synonym fs = "string \<Rightarrow> string option"

text \<open>
  A connection: \<open>inbuf\<close> holds the bytes the peer delivers before it closes the stream,
  \<open>wire\<close> logs, in order, what this side received (\<open>Rx\<close>) and sent (\<open>Tx\<close>).
\<close>

datatype event = Rx string | Tx string

record conn =
  inbuf :: string
  wire :: "event list"

text \<open>
  At this level \<open>send_all\<close> and \<open>recv_all\<close> stand for their contract: the whole buffer or
  a failure. A call with length 0 returns 0 without any system call. \<open>recv_all\<close> fails
  when the peer closes before \<open>len\<close> bytes have come.
\<close>

definition send_all :: "env \<Rightarrow> nat \<Rightarrow> string \<Rightarrow> conn \<Rightarrow> conn option" where
  "send_all E k buf c =
     (if buf = [] then Some c
      else if fails E OpSend k then None
      else Some (c\<lparr>wire := wire c @ [Tx buf]\<rparr>))"

definition recv_all :: "env \<Rightarrow> nat \<Rightarrow> nat \<Rightarrow> conn \<Rightarrow> (string \<times> conn) option" where
  "recv_all E k len c =
     (if len = 0 then Some ([], c)
      else if fails E OpRecv k \<or> length (inbuf c) < len then None
      else Some (take len (inbuf c),
                 c\<lparr>inbuf := drop len (inbuf c), wire := wire c @ [Rx (take len (inbuf c))]\<rparr>))"

text \<open>A C string ends at its first zero byte.\<close>

definition c_str :: "string \<Rightarrow> string" where
  "c_str bs = takeWhile (\<lambda>b. b \<noteq> CHR 0x00) bs"

text \<open>
  Writing \<open>data\<close> at offset \<open>pos\<close> of a file: a gap between the end of the file and \<open>pos\<close>
  reads as zero bytes.
\<close>

definition pwrite :: "nat \<Rightarrow> string \<Rightarrow> string \<Rightarrow> string" where
  "pwrite pos data old =
     take pos (old @ replicate (pos - length old) (CHR 0x00)) @ data @ drop (pos + length data) old"

definition file_bytes :: "fs \<Rightarrow> string \<Rightarrow> string" where
  "file_bytes s p = (case s p of None \<Rightarrow> [] | Some d \<Rightarrow> d)"

section \<open>The progress ledger (\<open>client.c\<close>)\<close>

text \<open>
  \<open>snprintf(buf, sizeof(buf), ...)\<close> with a buffer of 4096 bytes keeps at most 4095
  characters of the formatted text.
\<close>

definition snprintf4096 :: "string \<Rightarrow> string" where
  "snprintf4096 text = take 4095 text"

definition progress_path :: "string \<Rightarrow> string" where
  "progress_path fname = snprintf4096 (fname @ ''.progress'')"

definition progress_tmp_path :: "string \<Rightarrow> string" where
  "progress_tmp_path fname = snprintf4096 (fname @ ''.progress.tmp'')"

text \<open>The text \<open>fprintf(f, "%" PRIu64 "\n", val)\<close> writes: decimal digits and a line feed.\<close>

function decimal :: "nat \<Rightarrow> string" where
  "decimal n = (if n < 10 then [char_of (48 + n)]
                else decimal (n div 10) @ [char_of (48 + n mod 10)])"
  by pat_completeness auto
termination
  by (relation "measure id") auto

declare decimal.simps [simp del]

definition ledger_text :: "u64 \<Rightarrow> string" where
  "ledger_text val = decimal (unat val) @ [CHR 0x0A]"

definition rename_file :: "string \<Rightarrow> string \<Rightarrow> fs \<Rightarrow> fs" where
  "rename_file old new s = (if old = new then s else (s(new := s old))(old := None))"

text \<open>
  \<open>write_progress_atomic\<close> (lines 109 to 131), call by call: each step is the library
  call made and the file system after it. \<open>fprintf\<close> fills the stream's buffer, \<open>fflush\<close>
  writes the buffer to the file; when \<open>fflush\<close> fails the file stays empty, and the function
  goes on to \<open>rename\<close> as after a successful call (lines 122 to 126 test no result).
\<close>

datatype ledger_call = FOPEN_W string | FPRINTF | FFLUSH | FSYNC | FCLOSE
  | RENAME string string | UNLINK string

definition write_progress_steps ::
  "env \<Rightarrow> nat \<Rightarrow> string \<Rightarrow> u64 \<Rightarrow> fs \<Rightarrow> int \<times> (ledger_call \<times> fs) list" where
  "write_progress_steps E k fname val s =
     (let prog = progress_path fname;
          prog_tmp = progress_tmp_path fname;
          s1 = s(prog_tmp \<mapsto> []);
          s2 = (if fails E OpFflush k then s1 else s1(prog_tmp \<mapsto> ledger_text val))
      in
        if fails E OpFopenTmp k then (- 1, [(FOPEN_W prog_tmp, s)])
        else if fails E OpFprintf k then
          (- 1, [(FOPEN_W prog_tmp, s1), (FPRINTF, s1), (FCLOSE, s1),
                 (UNLINK prog_tmp, s1(prog_tmp := None))])
        else if fails E OpRename k then
          (- 1, [(FOPEN_W prog_tmp, s1), (FPRINTF, s1), (FFLUSH, s2), (FSYNC, s2), (FCLOSE, s2),
                 (RENAME prog_tmp prog, s2), (UNLINK prog_tmp, s2(prog_tmp := None))])
        else
          (0, [(FOPEN_W prog_tmp, s1), (FPRINTF, s1), (FFLUSH, s2), (FSYNC, s2), (FCLOSE, s2),
               (RENAME prog_tmp prog, rename_file prog_tmp prog s2)]))"

definition write_progress_atomic :: "env \<Rightarrow> nat \<Rightarrow> string \<Rightarrow> u64 \<Rightarrow> fs \<Rightarrow> int \<times> fs" where
  "write_progress_atomic E k fname val s =
     (fst (write_progress_steps E k fname val s),
      snd (last (snd (write_progress_steps E k fname val s))))"

text \<open>The file systems a reader can observe while the ledger is written.\<close>

definition ledger_observations :: "env \<Rightarrow> nat \<Rightarrow> string \<Rightarrow> u64 \<Rightarrow> fs \<Rightarrow> fs list" where
  "ledger_observations E k fname val s = s # map snd (snd (write_progress_steps E k fname val s))"

definition remove_progress :: "string \<Rightarrow> fs \<Rightarrow> fs" where
  "remove_progress fname s = s(progress_path fname := None)"

section \<open>The server (\<open>server.c\<close>)\<close>

text \<open>
  The receive loop of \<open>handle_upload\<close> (lines 96 to 118). A \<open>recv\<close> interrupted by a signal
  is tried again; the model shows the calls that are not interrupted. \<open>received\<close> never
  exceeds \<open>filesize\<close>, so the two counters are natural numbers here. The stream writes at
  the position \<open>received\<close>.
\<close>

function upload_loop ::
  "env \<Rightarrow> nat \<Rightarrow> string \<Rightarrow> nat \<Rightarrow> nat \<Rightarrow> fs \<Rightarrow> conn \<Rightarrow> int \<times> fs \<times> conn" where
  "upload_loop E i filename filesize received s c =
     (if received < filesize then
        (let to_read = (if filesize - received > 8192 then 8192 else filesize - received);
             buf = take to_read (inbuf c);
             c' = c\<lparr>inbuf := drop (length buf) (inbuf c), wire := wire c @ [Rx buf]\<rparr>
         in
           if fails E OpRecv i then (- 1, s, c)
           else if buf = [] then (- 1, s, c)
           else if fails E OpFwrite i then (- 1, s, c')
           else upload_loop E (Suc i) filename filesize (received + length buf)
                  (s(filename \<mapsto> pwrite received buf (file_bytes s filename))) c')
      else (0, s, c))"
  by pat_completeness auto
termination
  by (relation "measure (\<lambda>(E, i, filename, filesize, received, s, c). filesize - received)")
    (auto simp: min_def neq_Nil_conv)

declare upload_loop.simps [simp del]

text \<open>
  \<open>handle_upload\<close> (lines 66 to 124). \<open>fopen\<close> with \<open>"r+b"\<close> opens the file when it exists
  and the call does not fail; in every other case the source calls \<open>fopen\<close> with \<open>"wb+"\<close>,
  which creates the file, or empties it when it exists. \<open>fstat\<close> reads the size of the file
  as opened. \<open>fseeko\<close> also fails when \<open>(off_t)offset\<close> is negative.
\<close>

definition handle_upload :: "env \<Rightarrow> string \<Rightarrow> u64 \<Rightarrow> u64 \<Rightarrow> fs \<Rightarrow> conn \<Rightarrow> int \<times> fs \<times> conn" where
  "handle_upload E filename filesize offset s c =
     (let updating = (s filename \<noteq> None \<and> \<not> fails E OpFopen 0) in
      if \<not> updating \<and> fails E OpFopen 1 then (- 1, s, c)
      else
        (let s1 = (if updating then s else s(filename \<mapsto> []));
             st_size = (of_nat (length (file_bytes s1 filename)) :: u64);
             truncating = (\<not> fails E OpFstat 0 \<and> st_size > offset);
             s2 = (if truncating then s1(filename \<mapsto> take (unat offset) (file_bytes s1 filename))
                   else s1)
         in
           if truncating \<and> fails E OpFtruncate 0 then (- 1, s1, c)
           else if fails E OpFseeko 0 \<or> sint offset < 0 then (- 1, s2, c)
           else upload_loop E 5 filename (unat filesize) (unat offset) s2 c))"

text \<open>The send loop of \<open>handle_download\<close> (lines 169 to 182) over the rest of the file.\<close>

function download_loop :: "env \<Rightarrow> nat \<Rightarrow> string \<Rightarrow> conn \<Rightarrow> int \<times> conn" where
  "download_loop E i rest c =
     (if fails E OpFread i then (- 1, c)
      else if take 8192 rest = [] then (0, c)
      else
        (case send_all E (2 + i) (take 8192 rest) c of
           None \<Rightarrow> (- 1, c)
         | Some c' \<Rightarrow> download_loop E (Suc i) (drop 8192 rest) c'))"
  by pat_completeness auto
termination
  by (relation "measure (\<lambda>(E, i, rest, c). length rest)") auto

declare download_loop.simps [simp del]

text \<open>\<open>handle_download\<close> (lines 127 to 186).\<close>

definition handle_download :: "env \<Rightarrow> string \<Rightarrow> u64 \<Rightarrow> fs \<Rightarrow> conn \<Rightarrow> int \<times> conn" where
  "handle_download E filename client_offset s c =
     (case (if fails E OpFopen 0 then None else s filename) of
        None \<Rightarrow> (- 1, c)
      | Some content \<Rightarrow>
          if fails E OpStat 0 then (- 1, c)
          else
            (let filesize = (of_nat (length content) :: u64);
                 server_offset = (if client_offset > filesize then filesize else client_offset)
             in
               case send_all E 0 (mem64 (host E) (htonll_server (host E) filesize)) c of
                 None \<Rightarrow> (- 1, c)
               | Some c1 \<Rightarrow>
                   (case send_all E 1 (mem64 (host E) (htonll_server (host E) server_offset)) c1 of
                      None \<Rightarrow> (- 1, c1)
                    | Some c2 \<Rightarrow>
                        if server_offset \<ge> filesize then (0, c2)
                        else if fails E OpFseeko 0 then (- 1, c2)
                        else download_loop E 0 (drop (unat server_offset) content) c2)))"

text \<open>
  \<open>handle_client\<close> (lines 189 to 240), in two parts. \<open>serve_request\<close> is its second part
  (lines 206 to 236), entered when mode and file name have been read. The buffers \<open>mode\<close>
  and \<open>filename\<close> get a zero byte after the bytes received and are then used as C strings.
  \<open>OpStat\<close> failing is \<open>stat\<close> failing with an \<open>errno\<close> other than \<open>ENOENT\<close>. The result is
  the file system and the connection when the socket is closed.
\<close>

definition serve_request :: "env \<Rightarrow> fs \<Rightarrow> string \<Rightarrow> string \<Rightarrow> conn \<Rightarrow> fs \<times> conn" where
  "serve_request E s mode filename c4 =
     (if c_str mode = ''upload'' then
        (case recv_all E 4 8 c4 of
           None \<Rightarrow> (s, c4)
         | Some (filesize_net, c5) \<Rightarrow>
             (let filesize = ntohll_server (host E) (load64 (host E) filesize_net);
                  existing = (of_nat (length (file_bytes s (c_str filename))) :: u64);
                  agreed = (if existing > filesize then filesize else existing)
              in
                if fails E OpStat 0 then (s, c5)
                else
                  (case send_all E 0 (mem64 (host E) (htonll_server (host E) agreed)) c5 of
                     None \<Rightarrow> (s, c5)
                   | Some c6 \<Rightarrow> snd (handle_upload E (c_str filename) filesize agreed s c6))))
      else if c_str mode = ''download'' then
        (case recv_all E 4 8 c4 of
           None \<Rightarrow> (s, c4)
         | Some (offset_net, c5) \<Rightarrow>
             (let client_offset = ntohll_server (host E) (load64 (host E) offset_net) in
              (s, snd (handle_download E (c_str filename) client_offset s c5))))
      else (s, c4))"

definition handle_client :: "env \<Rightarrow> fs \<Rightarrow> conn \<Rightarrow> fs \<times> conn" where
  "handle_client E s c =
     (case recv_all E 0 4 c of
        None \<Rightarrow> (s, c)
      | Some (mode_len_net, c1) \<Rightarrow>
     (let mode_len = ntohl (host E) (load32 (host E) mode_len_net) in
      if mode_len = 0 \<or> mode_len \<ge> 32 then (s, c1)
      else
     (case recv_all E 1 (unat mode_len) c1 of
        None \<Rightarrow> (s, c1)
      | Some (mode, c2) \<Rightarrow>
     (case recv_all E 2 4 c2 of
        None \<Rightarrow> (s, c2)
      | Some (filename_len_net, c3) \<Rightarrow>
     (let filename_len = ntohl (host E) (load32 (host E) filename_len_net) in
      if filename_len = 0 \<or> filename_len \<ge> 512 then (s, c3)
      else
     (case recv_all E 3 (unat filename_len) c3 of
        None \<Rightarrow> (s, c3)
      | Some (filename, c4) \<Rightarrow> serve_request E s mode filename c4))))))"

section \<open>The client (\<open>client.c\<close>)\<close>

text \<open>
  Steps 1 and 2 of both transfers: the mode and the file name, each after its length.
  \<open>strlen\<close> is cut to 32 bits. The result says whether all four sends succeeded.
\<close>

definition send_header :: "env \<Rightarrow> string \<Rightarrow> string \<Rightarrow> conn \<Rightarrow> bool \<times> conn" where
  "send_header E mode filename c =
     (let mode_len = (of_nat (length mode) :: u32);
          name_len = (of_nat (length filename) :: u32)
      in
        case send_all E 0 (mem32 (host E) (htonl (host E) mode_len)) c of
          None \<Rightarrow> (False, c)
        | Some c1 \<Rightarrow>
       (case send_all E 1 (take (unat mode_len) mode) c1 of
          None \<Rightarrow> (False, c1)
        | Some c2 \<Rightarrow>
       (case send_all E 2 (mem32 (host E) (htonl (host E) name_len)) c2 of
          None \<Rightarrow> (False, c2)
        | Some c3 \<Rightarrow>
       (case send_all E 3 (take (unat name_len) filename) c3 of
          None \<Rightarrow> (False, c3)
        | Some c4 \<Rightarrow> (True, c4)))))"

text \<open>
  The send loop of \<open>client_upload\<close> (lines 215 to 233) over the rest of the open file;
  the result says whether the loop ended without \<open>goto out\<close>. A failed ledger write is
  only a warning.
\<close>

function upload_send_loop ::
  "env \<Rightarrow> nat \<Rightarrow> string \<Rightarrow> nat \<Rightarrow> string \<Rightarrow> fs \<Rightarrow> conn \<Rightarrow> bool \<times> fs \<times> conn" where
  "upload_send_loop E i filename total_sent rest s c =
     (if fails E OpFread i then (False, s, c)
      else if take 8192 rest = [] then (True, s, c)
      else
        (case send_all E (5 + i) (take 8192 rest) c of
           None \<Rightarrow> (False, s, c)
         | Some c' \<Rightarrow>
             upload_send_loop E (Suc i) filename (total_sent + length (take 8192 rest))
               (drop 8192 rest)
               (snd (write_progress_atomic E i filename
                       (of_nat (total_sent + length (take 8192 rest))) s))
               c'))"
  by pat_completeness auto
termination
  by (relation "measure (\<lambda>(E, i, filename, total_sent, rest, s, c). length rest)") auto

declare upload_send_loop.simps [simp del]

text \<open>\<open>client_upload\<close> (lines 149 to 244).\<close>

definition client_upload :: "env \<Rightarrow> string \<Rightarrow> fs \<Rightarrow> conn \<Rightarrow> int \<times> fs \<times> conn" where
  "client_upload E filename s c =
     (case send_header E ''upload'' filename c of
        (False, c4) \<Rightarrow> (- 1, s, c4)
      | (True, c4) \<Rightarrow>
     (case (if fails E OpStat 0 then None else s filename) of
        None \<Rightarrow> (- 1, s, c4)
      | Some content \<Rightarrow>
     (let filesize = (of_nat (length content) :: u64) in
      case send_all E 4 (mem64 (host E) (htonll_client (host E) filesize)) c4 of
        None \<Rightarrow> (- 1, s, c4)
      | Some c5 \<Rightarrow>
     (case recv_all E 0 8 c5 of
        None \<Rightarrow> (- 1, s, c5)
      | Some (net_agreed, c6) \<Rightarrow>
     (let agreed = ntohll_client (host E) (load64 (host E) net_agreed) in
      if agreed > filesize then (- 1, s, c6)
      else if fails E OpFopen 0 then (- 1, s, c6)
      else if fails E OpFseeko 0 then (- 1, s, c6)
      else
        (case upload_send_loop E 0 filename (unat agreed) (drop (unat agreed) content) s c6 of
           (False, s', c') \<Rightarrow> (- 1, s', c')
         | (True, s', c') \<Rightarrow> (0, remove_progress filename s', c')))))))"

text \<open>
  The receive loop of \<open>client_download\<close> (lines 327 to 349). The stream writes at the
  position \<open>total_received\<close>.
\<close>

function download_recv_loop ::
  "env \<Rightarrow> nat \<Rightarrow> string \<Rightarrow> nat \<Rightarrow> nat \<Rightarrow> fs \<Rightarrow> conn \<Rightarrow> bool \<times> fs \<times> conn" where
  "download_recv_loop E i filename filesize total_received s c =
     (if total_received < filesize then
        (let want = (if filesize - total_received > 8192 then 8192
                     else filesize - total_received)
         in
           case recv_all E (2 + i) want c of
             None \<Rightarrow> (False, s, c)
           | Some (buf, c') \<Rightarrow>
               if fails E OpFwrite i then (False, s, c')
               else download_recv_loop E (Suc i) filename filesize (total_received + want)
                      (snd (write_progress_atomic E i filename (of_nat (total_received + want))
                              (s(filename \<mapsto> pwrite total_received buf (file_bytes s filename)))))
                      c')
      else (True, s, c))"
  by pat_completeness auto
termination
  by (relation "measure (\<lambda>(E, i, filename, filesize, total_received, s, c).
        filesize - total_received)") auto

declare download_recv_loop.simps [simp del]

text \<open>
  \<open>client_download\<close> (lines 247 to 360). \<open>fopen\<close> with \<open>"r+b"\<close> opens the local file when
  it exists and the call does not fail; then \<open>fseeko\<close> and \<open>ftello\<close> give its length as the
  local offset. In every other case \<open>fopen\<close> with \<open>"wb+"\<close> creates the file, or empties it
  when it exists, and the local offset is 0.
\<close>

definition client_download :: "env \<Rightarrow> string \<Rightarrow> fs \<Rightarrow> conn \<Rightarrow> int \<times> fs \<times> conn" where
  "client_download E filename s c =
     (let updating = (s filename \<noteq> None \<and> \<not> fails E OpFopen 0) in
      if \<not> updating \<and> fails E OpFopen 1 then (- 1, s, c)
      else if updating \<and> fails E OpFseeko 0 then (- 1, s, c)
      else
     (let s1 = (if updating then s else s(filename \<mapsto> []));
          local_offset = length (file_bytes s1 filename)
      in
      case send_header E ''download'' filename c of
        (False, c4) \<Rightarrow> (- 1, s1, c4)
      | (True, c4) \<Rightarrow>
     (case send_all E 4 (mem64 (host E) (htonll_client (host E) (of_nat local_offset))) c4 of
        None \<Rightarrow> (- 1, s1, c4)
      | Some c5 \<Rightarrow>
     (case recv_all E 0 8 c5 of
        None \<Rightarrow> (- 1, s1, c5)
      | Some (net_filesize, c6) \<Rightarrow>
     (case recv_all E 1 8 c6 of
        None \<Rightarrow> (- 1, s1, c6)
      | Some (net_server_offset, c7) \<Rightarrow>
     (let filesize = ntohll_client (host E) (load64 (host E) net_filesize);
          server_offset = ntohll_client (host E) (load64 (host E) net_server_offset)
      in
        if server_offset > filesize then (- 1, s1, c7)
        else if fails E OpFseeko 1 \<or> sint server_offset < 0 then (- 1, s1, c7)
        else
          (case download_recv_loop E 0 filename (unat filesize) (unat server_offset) s1 c7 of
             (False, s', c') \<Rightarrow> (- 1, s', c')
           | (True, s', c') \<Rightarrow> (0, remove_progress filename s', c'))))))))"

section \<open>Auxiliary notions for the statements\<close>

text \<open>The errors \<open>send_all\<close> and \<open>recv_all\<close> of the client answer by trying again.\<close>

definition retried :: "sysret \<Rightarrow> bool" where
  "retried r = (r = Error EINTR \<or> r = Error EAGAIN)"

text \<open>An environment on a little-endian host in which no call fails.\<close>

definition fault_free :: env where
  "fault_free = \<lparr>host = LittleEndian, fails = (\<lambda>op k. False)\<rparr>"

text \<open>A file name of 4086 bytes: 681 times \<open>d/abcd\<close>, a path with short components.\<close>

definition long_name :: string where
  "long_name = concat (replicate 681 ''d/abcd'')"

text \<open>The bytes a side sent, and the bytes it received, according to its log.\<close>

fun sent_of :: "event list \<Rightarrow> string" where
  "sent_of [] = []"
| "sent_of (Tx b # es) = b @ sent_of es"
| "sent_of (Rx b # es) = sent_of es"

fun received_of :: "event list \<Rightarrow> string" where
  "received_of [] = []"
| "received_of (Rx b # es) = b @ received_of es"
| "received_of (Tx b # es) = received_of es"

text \<open>A byte sequence cut into pieces of at most \<open>n\<close> bytes, as a loop with a buffer of
  \<open>n\<close> bytes reads it.\<close>

function chunks :: "nat \<Rightarrow> string \<Rightarrow> string list" where
  "chunks n xs = (if n = 0 \<or> xs = [] then [] else take n xs # chunks n (drop n xs))"
  by pat_completeness auto
termination
  by (relation "measure (\<lambda>(n, xs). length xs)") auto

declare chunks.simps [simp del]

text \<open>An environment on a little-endian host in which \<open>fprintf\<close> fails and nothing else does.\<close>

definition fprintf_fails :: env where
  "fprintf_fails = \<lparr>host = LittleEndian, fails = (\<lambda>op k. op = OpFprintf)\<rparr>"

text \<open>An environment in which only \<open>fflush\<close> on the ledger's stream fails.\<close>

definition fflush_fails :: env where
  "fflush_fails = \<lparr>host = LittleEndian, fails = (\<lambda>op k. op = OpFflush)\<rparr>"

text \<open>An environment in which only the first \<open>fopen\<close> of a function fails.\<close>

definition first_fopen_fails :: env where
  "first_fopen_fails = \<lparr>host = LittleEndian, fails = (\<lambda>op k. op = OpFopen \<and> k = 0)\<rparr>"

section \<open>Byte order: lemmas\<close>

lemma low32: "(v::u64) AND 0xFFFFFFFF = take_bit 32 v"
proof -
  have "(0xFFFFFFFF::u64) = mask 32" by (simp add: mask_eq_exp_minus_1)
  then show ?thesis by (simp add: take_bit_eq_mask)
qed

lemma upt4: "[0..<4] = [0,1,2,3]"
  by (simp add: upt_rec)

lemma upt8: "[0..<8] = [0,1,2,3,4,5,6,7]"
  by (simp add: upt_rec)

lemma ball_lanes:
  "(\<forall>n \<in> set [0..<8 * k]. P n) = (\<forall>q \<in> set [0..<k]. \<forall>r \<in> set [0..<8]. P (8 * q + r))"
proof
  assume all: "\<forall>n \<in> set [0..<8 * k]. P n"
  show "\<forall>q \<in> set [0..<k]. \<forall>r \<in> set [0..<8]. P (8 * q + r)"
  proof (intro ballI)
    fix q r assume "q \<in> set [0..<k]" "r \<in> set [0..<8]"
    then have "8 * q + r < 8 * k" by simp
    with all show "P (8 * q + r)" by simp
  qed
next
  assume lanes: "\<forall>q \<in> set [0..<k]. \<forall>r \<in> set [0..<8]. P (8 * q + r)"
  show "\<forall>n \<in> set [0..<8 * k]. P n"
  proof
    fix n assume "n \<in> set [0..<8 * k]"
    then have "n div 8 \<in> set [0..<k]" and "n mod 8 \<in> set [0..<8]"
      by (simp_all add: less_mult_imp_div_less mult.commute)
    with lanes have "P (8 * (n div 8) + n mod 8)" by blast
    then show "P n" by simp
  qed
qed

lemma ball32: "(\<forall>n \<in> set [0..<32]. P n) = (\<forall>q \<in> set [0..<4]. \<forall>r \<in> set [0..<8]. P (8 * q + r))"
  using ball_lanes [of 4 P] by simp

lemma ball64: "(\<forall>n \<in> set [0..<64]. P n) = (\<forall>q \<in> set [0..<8]. \<forall>r \<in> set [0..<8]. P (8 * q + r))"
  using ball_lanes [of 8 P] by simp

lemma of_char_byte_at:
  "(of_char (byte_at w i) :: 'a::len word) = take_bit 8 (drop_bit (8 * i) w)"
proof -
  have "(of_char (byte_at w i) :: 'a word) = of_nat (of_char (byte_at w i))"
    by (simp add: of_nat_of_char)
  also have "\<dots> = of_nat (take_bit 8 (unat (drop_bit (8 * i) w)))"
    by (simp add: byte_at_def take_bit_eq_mod)
  also have "\<dots> = take_bit 8 (drop_bit (8 * i) w)"
    by (simp add: unsigned_take_bit_eq [symmetric])
  finally show ?thesis .
qed

lemma byte_at_eqI:
  assumes "take_bit 8 (drop_bit (8 * i) a) = take_bit 8 (drop_bit (8 * j) (b::'a::len word))"
  shows "byte_at a i = byte_at b j"
proof -
  have "byte_at w k = char_of (unat (take_bit 8 (drop_bit (8 * k) w)))" for w :: "'a word" and k
    by (simp add: byte_at_def unsigned_take_bit_eq char_of_take_bit_eq)
  with assms show ?thesis by simp
qed

subsection \<open>Thirty-two bits\<close>

lemma bswap32_bit:
  assumes "n < 32"
  shows "bit (bswap32 x) n = bit x (8 * (3 - n div 8) + n mod 8)"
proof -
  have "\<forall>n \<in> set [0..<32]. bit (bswap32 x) n = bit x (8 * (3 - n div 8) + n mod 8)"
    unfolding bswap32_def ball32 upt4 upt8
    by (simp add: bit_simps) (simp add: numeral_2_eq_2)?
  with assms show ?thesis by simp
qed

lemma sigma32_invol:
  "n < 32 \<Longrightarrow> 8 * (3 - (8 * (3 - n div 8) + n mod 8) div 8) + (8 * (3 - n div 8) + n mod 8) mod 8 = (n::nat)"
proof -
  have "\<forall>n \<in> set [0..<32]. 8 * (3 - (8 * (3 - n div 8) + n mod 8) div 8)
           + (8 * (3 - n div 8) + n mod 8) mod 8 = (n::nat)"
    unfolding ball32 upt4 upt8 by simp
  then show "n < 32 \<Longrightarrow> ?thesis" by simp
qed

lemma sigma32_lt: "n < 32 \<Longrightarrow> 8 * (3 - n div 8) + n mod 8 < (32::nat)"
proof -
  have "\<forall>n \<in> set [0..<32]. 8 * (3 - n div 8) + n mod 8 < (32::nat)"
    unfolding ball32 upt4 upt8 by simp
  then show "n < 32 \<Longrightarrow> ?thesis" by simp
qed

lemma bswap32_invol: "bswap32 (bswap32 x) = x"
proof (rule bit_word_eqI)
  fix n assume "n < LENGTH(32)"
  then have n: "n < 32" by simp
  show "bit (bswap32 (bswap32 x)) n = bit x n"
    by (simp only: bswap32_bit [OF n] bswap32_bit [OF sigma32_lt [OF n]] sigma32_invol [OF n])
qed

lemma ntohl_htonl: "ntohl h (htonl h x) = x"
  by (cases h) (simp_all add: ntohl_def htonl_def bswap32_invol)

lemma byte_at_bswap32: "i < 4 \<Longrightarrow> byte_at (bswap32 x) i = byte_at x (3 - i)"
proof (rule byte_at_eqI, rule bit_word_eqI)
  fix n assume i: "i < 4" and "n < LENGTH(32)"
  show "bit (take_bit 8 (drop_bit (8 * i) (bswap32 x))) n
        = bit (take_bit 8 (drop_bit (8 * (3 - i)) x)) n"
  proof (cases "n < 8")
    case True
    with i have lt: "8 * i + n < 32" by simp
    from True have idx: "8 * (3 - (8 * i + n) div 8) + (8 * i + n) mod 8 = 8 * (3 - i) + n"
      by simp
    show ?thesis using True by (simp add: bit_simps bswap32_bit [OF lt] idx)
  next
    case False
    then show ?thesis by (simp add: bit_simps)
  qed
qed

lemma mem32_htonl: "mem32 h (htonl h x) = be32 x"
proof (cases h)
  case LittleEndian
  have "map (byte_at (bswap32 x)) [0..<4] = map (\<lambda>i. byte_at x (3 - i)) [0..<4]"
    by (rule map_cong) (simp_all add: byte_at_bswap32)
  also have "\<dots> = rev (map (byte_at x) [0..<4])"
    by (simp add: upt4)
  finally show ?thesis by (simp add: LittleEndian mem32_def be32_def htonl_def)
next
  case BigEndian
  then show ?thesis by (simp add: mem32_def be32_def htonl_def)
qed

lemma le_word_bytes32: "le_word (map (byte_at w) [0..<4]) = (w::u32)"
proof (rule bit_word_eqI)
  fix n assume "n < LENGTH(32)"
  then have n: "n \<in> set [0..<32]" by simp
  have "\<forall>n \<in> set [0..<32]. bit (le_word (map (byte_at w) [0..<4]) :: u32) n = bit w n"
    unfolding ball32 by (simp add: upt4 upt8 of_char_byte_at bit_simps)
  with n show "bit (le_word (map (byte_at w) [0..<4]) :: u32) n = bit w n" by blast
qed

lemma load32_mem32: "load32 h (mem32 h w) = w"
  by (cases h) (simp_all add: load32_def mem32_def le_word_bytes32)

lemma get_be32: "ntohl h (load32 h (be32 x)) = x"
  by (metis mem32_htonl load32_mem32 ntohl_htonl)

subsection \<open>Sixty-four bits\<close>

lemma swap64_bit:
  assumes "n < 64"
  shows "bit (htonll_client LittleEndian v) n = bit v (8 * (7 - n div 8) + n mod 8)"
proof -
  have "\<forall>n \<in> set [0..<64]. bit (htonll_client LittleEndian v) n
          = bit v (8 * (7 - n div 8) + n mod 8)"
    unfolding htonll_client_def htonl_def low32 bswap32_def ball64 upt8
    by (simp add: bit_simps) (simp add: numeral_2_eq_2)?
  with assms show ?thesis by simp
qed

lemma sigma64_invol:
  "n < 64 \<Longrightarrow> 8 * (7 - (8 * (7 - n div 8) + n mod 8) div 8) + (8 * (7 - n div 8) + n mod 8) mod 8 = (n::nat)"
proof -
  have "\<forall>n \<in> set [0..<64]. 8 * (7 - (8 * (7 - n div 8) + n mod 8) div 8)
           + (8 * (7 - n div 8) + n mod 8) mod 8 = (n::nat)"
    unfolding ball64 upt8 by simp
  then show "n < 64 \<Longrightarrow> ?thesis" by simp
qed

lemma sigma64_lt: "n < 64 \<Longrightarrow> 8 * (7 - n div 8) + n mod 8 < (64::nat)"
proof -
  have "\<forall>n \<in> set [0..<64]. 8 * (7 - n div 8) + n mod 8 < (64::nat)"
    unfolding ball64 upt8 by simp
  then show "n < 64 \<Longrightarrow> ?thesis" by simp
qed

lemma htonll_server_eq: "htonll_server h v = htonll_client h v"
  by (simp add: htonll_server_def htonll_client_def)

lemma ntohll_client_eq: "ntohll_client h v = htonll_client h v"
  by (cases h) (simp_all add: ntohll_client_def htonll_client_def ntohl_def htonl_def)

lemma ntohll_server_eq: "ntohll_server h v = htonll_client h v"
  by (cases h) (simp_all add: ntohll_server_def htonll_client_def ntohl_def htonl_def)

lemma htonll_invol: "htonll_client h (htonll_client h v) = v"
proof (cases h)
  case LittleEndian
  show ?thesis unfolding LittleEndian
  proof (rule bit_word_eqI)
    fix n assume "n < LENGTH(64)"
    then have n: "n < 64" by simp
    show "bit (htonll_client LittleEndian (htonll_client LittleEndian v)) n = bit v n"
      by (simp only: swap64_bit [OF n] swap64_bit [OF sigma64_lt [OF n]] sigma64_invol [OF n])
  qed
next
  case BigEndian
  then show ?thesis by (simp add: htonll_client_def)
qed

lemma byte_at_swap64: "i < 8 \<Longrightarrow> byte_at (htonll_client LittleEndian v) i = byte_at v (7 - i)"
proof (rule byte_at_eqI, rule bit_word_eqI)
  fix n assume i: "i < 8" and "n < LENGTH(64)"
  show "bit (take_bit 8 (drop_bit (8 * i) (htonll_client LittleEndian v))) n
        = bit (take_bit 8 (drop_bit (8 * (7 - i)) v)) n"
  proof (cases "n < 8")
    case True
    with i have lt: "8 * i + n < 64" by simp
    from True have idx: "8 * (7 - (8 * i + n) div 8) + (8 * i + n) mod 8 = 8 * (7 - i) + n"
      by simp
    show ?thesis using True by (simp add: bit_simps swap64_bit [OF lt] idx)
  next
    case False
    then show ?thesis by (simp add: bit_simps)
  qed
qed

lemma mem64_htonll: "mem64 h (htonll_client h v) = be64 v"
proof (cases h)
  case LittleEndian
  have "map (byte_at (htonll_client LittleEndian v)) [0..<8] = map (\<lambda>i. byte_at v (7 - i)) [0..<8]"
    by (rule map_cong) (simp_all add: byte_at_swap64)
  also have "\<dots> = rev (map (byte_at v) [0..<8])"
    by (simp add: upt8)
  finally show ?thesis by (simp add: LittleEndian mem64_def be64_def)
next
  case BigEndian
  then show ?thesis by (simp add: mem64_def be64_def htonll_client_def)
qed

lemma le_word_bytes64: "le_word (map (byte_at w) [0..<8]) = (w::u64)"
proof (rule bit_word_eqI)
  fix n assume "n < LENGTH(64)"
  then have n: "n \<in> set [0..<64]" by simp
  have "\<forall>n \<in> set [0..<64]. bit (le_word (map (byte_at w) [0..<8]) :: u64) n = bit w n"
    unfolding ball64 by (simp add: upt8 of_char_byte_at bit_simps)
  with n show "bit (le_word (map (byte_at w) [0..<8]) :: u64) n = bit w n" by blast
qed

lemma load64_mem64: "load64 h (mem64 h w) = w"
  by (cases h) (simp_all add: load64_def mem64_def le_word_bytes64)

lemma get_be64: "htonll_client h (load64 h (be64 v)) = v"
  by (metis mem64_htonll load64_mem64 htonll_invol)

lemma length_be32 [simp]: "length (be32 x) = 4"
  by (simp add: be32_def)

lemma length_be64 [simp]: "length (be64 x) = 8"
  by (simp add: be64_def)

text \<open>
  Claim C8. For every 64-bit value \<open>v\<close> and on every host, \<open>ntohll\<close> undoes \<open>htonll\<close>; the
  client's and the server's functions are the same functions; on a little-endian host the
  bytes of \<open>htonll v\<close> in memory are the big-endian encoding of \<open>v\<close>; and a field sent by a
  host of byte order \<open>h\<close> decodes to the sender's value on a peer of byte order \<open>h'\<close>.
\<close>

theorem byte_order_round_trip:
  "ntohll_client h (htonll_client h v) = v
   \<and> ntohll_server h (htonll_server h v) = v
   \<and> htonll_client h v = htonll_server h v
   \<and> ntohll_client h v = ntohll_server h v
   \<and> mem64 LittleEndian (htonll_client LittleEndian v) = be64 v
   \<and> mem64 LittleEndian (htonll_server LittleEndian v) = be64 v
   \<and> ntohll_server h' (load64 h' (mem64 h (htonll_client h v))) = v
   \<and> ntohll_client h' (load64 h' (mem64 h (htonll_server h v))) = v"
  by (simp add: htonll_server_eq ntohll_client_eq ntohll_server_eq htonll_invol mem64_htonll get_be64)

section \<open>The reliable stream primitives: lemmas\<close>

lemma recv_all_client_loop_result:
  "recv_all_client_loop len left tr = Some (r, moved) \<Longrightarrow> left \<le> len \<Longrightarrow>
     (r = int len \<and> moved = len) \<or> (r = - 1 \<and> moved < len)"
proof (induction tr arbitrary: left)
  case Nil
  then show ?case by (simp split: if_splits)
next
  case (Cons a tr)
  show ?case
  proof (cases "left > 0")
    case False
    with Cons.prems show ?thesis by simp
  next
    case True
    show ?thesis
    proof (cases a)
      case (Bytes k)
      with True Cons.prems Cons.IH [of "left - min k left"] show ?thesis
        by (auto split: if_splits)
    next
      case (Error e)
      with True Cons.prems Cons.IH [of left] show ?thesis
        by (auto split: if_splits)
    qed
  qed
qed

lemma send_all_client_loop_eq: "send_all_client_loop len left tr = recv_all_client_loop len left tr"
  by (induction tr arbitrary: left) (auto split: sysret.splits)

lemma recv_all_client_loop_returns:
  "left \<le> length (filter (\<lambda>r. \<not> retried r) tr) \<Longrightarrow> recv_all_client_loop len left tr \<noteq> None"
proof (induction tr arbitrary: left)
  case Nil
  then show ?case by simp
next
  case (Cons a tr)
  show ?case
  proof (cases a)
    case (Bytes k)
    with Cons.prems have "left - min k left \<le> length (filter (\<lambda>r. \<not> retried r) tr) \<or> min k left = 0"
      by (auto simp: retried_def min_def split: if_splits)
    with Bytes Cons.IH [of "left - min k left"] show ?thesis by auto
  next
    case (Error e)
    with Cons.prems Cons.IH [of left] show ?thesis
      by (cases e) (auto simp: retried_def)
  qed
qed

lemma recv_all_server_loop_result:
  "recv_all_server_loop en len tot tr = Some (r, moved) \<Longrightarrow> tot \<le> len \<Longrightarrow>
     (r = int len \<and> moved = len) \<or> (r = - 1 \<and> moved < len)"
proof (induction tr arbitrary: tot en)
  case Nil
  then show ?case by (simp split: if_splits)
next
  case (Cons a tr)
  show ?case
  proof (cases "tot < len")
    case False
    with Cons.prems show ?thesis by simp
  next
    case True
    show ?thesis
    proof (cases a)
      case (Bytes k)
      with True Cons.prems Cons.IH [of en "tot + min k (len - tot)"] Cons.IH [of en tot]
      show ?thesis
        by (auto split: if_splits)
    next
      case (Error e)
      with True Cons.prems Cons.IH [of "Some e" tot] show ?thesis
        by (auto split: if_splits)
    qed
  qed
qed

lemma send_all_server_loop_eq:
  "send_all_server_loop en len tot tr = recv_all_server_loop en len tot tr"
  by (induction tr arbitrary: tot en) (auto split: sysret.splits)

lemma recv_all_server_loop_spins:
  "tot < len \<Longrightarrow> recv_all_server_loop (Some EINTR) len tot (replicate n (Bytes 0)) = None"
  by (induction n) simp_all

lemma recv_all_client_contract:
  "(recv_all_client len tr = Some (r, moved) \<longrightarrow> (r = int len \<and> moved = len) \<or> r = - 1)
   \<and> (0 < len \<longrightarrow> recv_all_client len (Error EINTR # tr) = recv_all_client len tr)
   \<and> (0 < len \<longrightarrow> recv_all_client len (Error EAGAIN # tr) = recv_all_client len tr)
   \<and> (0 < len \<longrightarrow> recv_all_client len (Bytes 0 # tr) = Some (- 1, 0))
   \<and> (len \<le> length (filter (\<lambda>r. \<not> retried r) tr) \<longrightarrow> recv_all_client len tr \<noteq> None)"
  using recv_all_client_loop_result [of len len tr r moved] recv_all_client_loop_returns [of len tr len]
  by (auto simp: recv_all_client_def)

lemma send_all_client_contract:
  "(send_all_client len tr = Some (r, moved) \<longrightarrow> (r = int len \<and> moved = len) \<or> r = - 1)
   \<and> (len \<le> length (filter (\<lambda>r. \<not> retried r) tr) \<longrightarrow> send_all_client len tr \<noteq> None)"
  using recv_all_client_contract [of len tr r moved]
  by (simp add: send_all_client_def recv_all_client_def send_all_client_loop_eq)

lemma server_never_partial:
  "(recv_all_server en len tr = Some (r, moved) \<longrightarrow> (r = int len \<and> moved = len) \<or> r = - 1)
   \<and> (send_all_server en len tr = Some (r, moved) \<longrightarrow> (r = int len \<and> moved = len) \<or> r = - 1)"
  using recv_all_server_loop_result [of en len 0 tr r moved]
  by (auto simp: recv_all_server_def send_all_server_def send_all_server_loop_eq)

text \<open>
  Claim C5, at the input where the server's \<open>recv_all\<close> departs from it. A \<open>recv\<close> is
  interrupted (\<open>EINTR\<close>), then the peer closes and every later \<open>recv\<close> returns 0 without
  touching \<open>errno\<close>. The server's \<open>recv_all\<close> tests \<open>errno\<close> after \<open>n <= 0\<close>, finds the old
  \<open>EINTR\<close> and tries again, for as long as the stream stays closed: it never reports the
  zero-length read. The client's \<open>recv_all\<close> returns \<open>-1\<close> at the first zero-length read.
\<close>

theorem recv_all_server_stale_errno:
  "recv_all_server None 4 (Error EINTR # Bytes 0 # replicate n (Bytes 0)) = None
   \<and> recv_all_client 4 (Error EINTR # Bytes 0 # replicate n (Bytes 0)) = Some (- 1, 0)"
  using recv_all_server_loop_spins [of 0 4 "Suc n"]
  by (simp add: recv_all_server_def recv_all_client_def)

section \<open>The progress ledger: lemmas\<close>

lemma progress_paths_exact:
  "length fname \<le> 4082 \<Longrightarrow>
     progress_path fname = fname @ ''.progress'' \<and> progress_tmp_path fname = fname @ ''.progress.tmp''"
  by (simp add: progress_path_def progress_tmp_path_def snprintf4096_def)

lemma progress_paths_distinct:
  assumes "length fname < 4086"
  shows "progress_tmp_path fname \<noteq> progress_path fname"
proof -
  have "length (progress_path fname) = length fname + 9"
    using assms by (simp add: progress_path_def snprintf4096_def)
  moreover have "length (progress_tmp_path fname) > length fname + 9"
    using assms by (simp add: progress_tmp_path_def snprintf4096_def)
  ultimately show ?thesis by auto
qed

lemma progress_paths_collide:
  assumes "length fname = 4086"
  shows "progress_tmp_path fname = progress_path fname"
  using assms by (simp add: progress_path_def progress_tmp_path_def snprintf4096_def)

lemma ledger_text_not_empty: "ledger_text v \<noteq> []"
  by (simp add: ledger_text_def)

lemma length_long_name: "length long_name = 4086"
  by (simp add: long_name_def length_concat sum_list_replicate)

text \<open>
  For a file name shorter than 4086 bytes, and when \<open>fflush\<close> does not fail, a reader of the
  ledger finds the previous value or the new one at every step of the write.
\<close>

lemma ledger_atomic_short_names:
  assumes "length fname < 4086" and "\<not> fails E OpFflush k"
  shows "\<forall>s' \<in> set (ledger_observations E k fname v s).
           s' (progress_path fname) = s (progress_path fname)
           \<or> s' (progress_path fname) = Some (ledger_text v)"
  using progress_paths_distinct [OF assms(1)] assms(2)
  by (simp add: ledger_observations_def write_progress_steps_def Let_def rename_file_def)

lemma write_progress_atomic_short_names:
  assumes "length fname < 4086" and "\<not> fails E OpFflush k"
  shows "write_progress_atomic E k fname v s = (rc, s') \<Longrightarrow>
           (rc = 0 \<and> s' (progress_path fname) = Some (ledger_text v))
           \<or> (rc = - 1 \<and> s' (progress_path fname) = s (progress_path fname))"
  using progress_paths_distinct [OF assms(1)] assms(2)
  by (auto simp add: write_progress_atomic_def write_progress_steps_def Let_def rename_file_def
      split: if_splits)

text \<open>
  When \<open>fflush\<close> fails, \<open>write_progress_atomic\<close> renames the empty temporary file over the
  ledger and returns 0: for the file \<open>f\<close> with the ledger value 8192, the ledger ends empty.
\<close>

lemma ledger_empty_after_failed_flush:
  "write_progress_atomic fflush_fails 0 ''f'' 16384 [''f.progress'' \<mapsto> ledger_text 8192]
     = (0, [''f.progress'' \<mapsto> []])"
  by (simp add: write_progress_atomic_def write_progress_steps_def Let_def fflush_fails_def
      rename_file_def progress_path_def progress_tmp_path_def snprintf4096_def fun_eq_iff)

lemma write_progress_calls:
  "fst (write_progress_steps E k fname v s) = 0 \<Longrightarrow>
     map fst (snd (write_progress_steps E k fname v s))
       = [FOPEN_W (progress_tmp_path fname), FPRINTF, FFLUSH, FSYNC, FCLOSE,
          RENAME (progress_tmp_path fname) (progress_path fname)]"
  by (simp add: write_progress_steps_def Let_def split: if_splits)

text \<open>
  Claim C6, at the input where \<open>write_progress_atomic\<close> departs from it. For a file name of
  4086 bytes \<open>snprintf\<close> cuts \<open>prog_tmp\<close> to the 4095 bytes of \<open>prog\<close>: the temporary path is
  the ledger itself. After \<open>fopen(prog_tmp, "w")\<close> a reader of the ledger finds an empty
  file, which is neither the previous value nor the new one. For names shorter than 4086
  bytes the value goes through the temporary file (\<open>write_progress_calls\<close>) and, as long as
  \<open>fflush\<close> does not fail, a reader finds the previous value or the new one
  (\<open>ledger_atomic_short_names\<close>).
\<close>

theorem ledger_truncated_long_name:
  "progress_tmp_path long_name = progress_path long_name
   \<and> (ledger_observations fault_free 0 long_name 16384
         [progress_path long_name \<mapsto> ledger_text 8192] ! 1) (progress_path long_name) = Some []
   \<and> [] \<noteq> ledger_text 8192 \<and> [] \<noteq> ledger_text 16384"
  using progress_paths_collide [OF length_long_name] ledger_text_not_empty [of 8192]
    ledger_text_not_empty [of 16384]
  by (simp add: ledger_observations_def write_progress_steps_def Let_def fault_free_def)

section \<open>The server: lemmas\<close>

lemma sent_of_append [simp]: "sent_of (es @ fs) = sent_of es @ sent_of fs"
  by (induction es rule: sent_of.induct) simp_all

lemma received_of_append [simp]: "received_of (es @ fs) = received_of es @ received_of fs"
  by (induction es rule: received_of.induct) simp_all

lemma recv_all_Some:
  "recv_all E k n c = Some (b, c') \<Longrightarrow>
     b = take n (inbuf c) \<and> length b = n \<and> inbuf c' = drop n (inbuf c)
     \<and> sent_of (wire c') = sent_of (wire c)"
  by (auto simp: recv_all_def split: if_splits)

lemma recv_all_prefix:
  "inbuf c = a @ rest \<Longrightarrow> length a = n \<Longrightarrow> 0 < n \<Longrightarrow>
     recv_all E k n c = (if fails E OpRecv k then None
                         else Some (a, c\<lparr>inbuf := rest, wire := wire c @ [Rx a]\<rparr>))"
  by (simp add: recv_all_def)

text \<open>
  Reading a request whose two length prefixes are in range: a receive fails and the
  connection is dropped, or \<open>serve_request\<close> is entered with the header consumed.
\<close>

lemma handle_client_header:
  assumes shape: "inbuf c = be32 mode_len @ mode @ be32 filename_len @ filename @ rest"
    and lens: "length mode = unat mode_len" "length filename = unat filename_len"
    and m: "mode_len \<noteq> 0" "mode_len < 32" and n: "filename_len \<noteq> 0" "filename_len < 512"
  shows "handle_client E s c =
     (if fails E OpRecv 0 then (s, c)
      else if fails E OpRecv 1 then (s, c\<lparr>inbuf := mode @ be32 filename_len @ filename @ rest,
             wire := wire c @ [Rx (be32 mode_len)]\<rparr>)
      else if fails E OpRecv 2 then (s, c\<lparr>inbuf := be32 filename_len @ filename @ rest,
             wire := wire c @ [Rx (be32 mode_len), Rx mode]\<rparr>)
      else if fails E OpRecv 3 then (s, c\<lparr>inbuf := filename @ rest,
             wire := wire c @ [Rx (be32 mode_len), Rx mode, Rx (be32 filename_len)]\<rparr>)
      else serve_request E s mode filename
             (c\<lparr>inbuf := rest,
                wire := wire c @ [Rx (be32 mode_len), Rx mode, Rx (be32 filename_len), Rx filename]\<rparr>))"
proof -
  let ?c1 = "c\<lparr>inbuf := mode @ be32 filename_len @ filename @ rest,
                wire := wire c @ [Rx (be32 mode_len)]\<rparr>"
  let ?c2 = "c\<lparr>inbuf := be32 filename_len @ filename @ rest,
                wire := wire c @ [Rx (be32 mode_len), Rx mode]\<rparr>"
  let ?c3 = "c\<lparr>inbuf := filename @ rest,
                wire := wire c @ [Rx (be32 mode_len), Rx mode, Rx (be32 filename_len)]\<rparr>"
  from m(1) n(1) have pos: "0 < unat mode_len" "0 < unat filename_len"
    by (simp_all add: unat_gt_0)
  have r0: "recv_all E 0 4 c = (if fails E OpRecv 0 then None else Some (be32 mode_len, ?c1))"
    using recv_all_prefix [OF shape, of 4 E 0] by simp
  have r1: "recv_all E 1 (unat mode_len) ?c1 = (if fails E OpRecv 1 then None else Some (mode, ?c2))"
    using recv_all_prefix [of ?c1 mode "be32 filename_len @ filename @ rest" "unat mode_len" E 1]
      lens pos by simp
  have r2: "recv_all E 2 4 ?c2 = (if fails E OpRecv 2 then None else Some (be32 filename_len, ?c3))"
    using recv_all_prefix [of ?c2 "be32 filename_len" "filename @ rest" 4 E 2] by simp
  have r3: "recv_all E 3 (unat filename_len) ?c3 = (if fails E OpRecv 3 then None
      else Some (filename, c\<lparr>inbuf := rest,
        wire := wire c @ [Rx (be32 mode_len), Rx mode, Rx (be32 filename_len), Rx filename]\<rparr>))"
    using recv_all_prefix [of ?c3 filename rest "unat filename_len" E 3] lens pos by simp
  from m n have ok: "\<not> (mode_len = 0 \<or> 32 \<le> mode_len)" "\<not> (filename_len = 0 \<or> 512 \<le> filename_len)"
    by (simp_all add: not_le)
  show ?thesis
    unfolding handle_client_def r0
    by (simp add: get_be32 ok r1 r2 r3 del: One_nat_def)
qed

lemma handle_client_bad_mode_len:
  assumes "inbuf c = be32 mode_len @ rest" and "mode_len = 0 \<or> 32 \<le> mode_len"
  shows "fst (handle_client E s c) = s
         \<and> sent_of (wire (snd (handle_client E s c))) = sent_of (wire c)"
proof -
  have "recv_all E 0 4 c = (if fails E OpRecv 0 then None
          else Some (be32 mode_len, c\<lparr>inbuf := rest, wire := wire c @ [Rx (be32 mode_len)]\<rparr>))"
    using recv_all_prefix [OF assms(1), of 4 E 0] by simp
  with assms(2) show ?thesis
    by (auto simp add: handle_client_def get_be32)
qed

lemma handle_client_bad_filename_len:
  assumes shape: "inbuf c = be32 mode_len @ mode @ be32 filename_len @ rest"
    and len: "length mode = unat mode_len"
    and bad: "filename_len = 0 \<or> 512 \<le> filename_len"
  shows "fst (handle_client E s c) = s
         \<and> sent_of (wire (snd (handle_client E s c))) = sent_of (wire c)"
proof (cases "mode_len = 0 \<or> 32 \<le> mode_len")
  case True
  from shape have "inbuf c = be32 mode_len @ (mode @ be32 filename_len @ rest)" by simp
  from handle_client_bad_mode_len [OF this True] show ?thesis .
next
  case False
  let ?c1 = "c\<lparr>inbuf := mode @ be32 filename_len @ rest, wire := wire c @ [Rx (be32 mode_len)]\<rparr>"
  let ?c2 = "c\<lparr>inbuf := be32 filename_len @ rest, wire := wire c @ [Rx (be32 mode_len), Rx mode]\<rparr>"
  let ?c3 = "c\<lparr>inbuf := rest,
                wire := wire c @ [Rx (be32 mode_len), Rx mode, Rx (be32 filename_len)]\<rparr>"
  from False have pos: "0 < unat mode_len" by (simp add: unat_gt_0)
  have r0: "recv_all E 0 4 c = (if fails E OpRecv 0 then None else Some (be32 mode_len, ?c1))"
    using recv_all_prefix [OF shape, of 4 E 0] by simp
  have r1: "recv_all E 1 (unat mode_len) ?c1 = (if fails E OpRecv 1 then None else Some (mode, ?c2))"
    using recv_all_prefix [of ?c1 mode "be32 filename_len @ rest" "unat mode_len" E 1] len pos
    by simp
  have r2: "recv_all E 2 4 ?c2 = (if fails E OpRecv 2 then None else Some (be32 filename_len, ?c3))"
    using recv_all_prefix [of ?c2 "be32 filename_len" rest 4 E 2] by simp
  show ?thesis
    unfolding handle_client_def r0 using False bad
    by (simp add: get_be32 r1 r2 del: One_nat_def)
qed

lemma handle_client_bad_mode:
  assumes shape: "inbuf c = be32 mode_len @ mode @ be32 filename_len @ filename @ rest"
    and lens: "length mode = unat mode_len" "length filename = unat filename_len"
    and bad: "c_str mode \<noteq> ''upload''" "c_str mode \<noteq> ''download''"
  shows "fst (handle_client E s c) = s
         \<and> sent_of (wire (snd (handle_client E s c))) = sent_of (wire c)"
proof (cases "filename_len = 0 \<or> 512 \<le> filename_len")
  case True
  from shape have "inbuf c = be32 mode_len @ mode @ be32 filename_len @ (filename @ rest)" by simp
  from handle_client_bad_filename_len [OF this lens(1) True] show ?thesis .
next
  case fn: False
  show ?thesis
  proof (cases "mode_len = 0 \<or> 32 \<le> mode_len")
    case True
    from shape have "inbuf c = be32 mode_len @ (mode @ be32 filename_len @ filename @ rest)"
      by simp
    from handle_client_bad_mode_len [OF this True] show ?thesis .
  next
    case False
    with fn have "mode_len \<noteq> 0" "mode_len < 32" "filename_len \<noteq> 0" "filename_len < 512"
      by (simp_all add: not_le)
    from handle_client_header [OF shape lens this] bad show ?thesis
      by (simp add: serve_request_def)
  qed
qed

lemma send_all_eq:
  "buf \<noteq> [] \<Longrightarrow> send_all E k buf c
     = (if fails E OpSend k then None else Some (c\<lparr>wire := wire c @ [Tx buf]\<rparr>))"
  by (simp add: send_all_def)

lemma be64_not_empty [simp]: "be64 v \<noteq> []"
  using length_be64 [of v] by (metis length_0_conv zero_neq_numeral)

lemma wire64_server: "mem64 h (htonll_server h v) = be64 v"
  by (simp add: htonll_server_eq mem64_htonll)

lemma read64_server: "ntohll_server h (load64 h (be64 v)) = v"
  by (simp add: ntohll_server_eq get_be64)

lemma wire64_client: "mem64 h (htonll_client h v) = be64 v"
  by (rule mem64_htonll)

lemma read64_client: "ntohll_client h (load64 h (be64 v)) = v"
  by (simp add: ntohll_client_eq get_be64)

lemma agreed_min:
  assumes "n < 2 ^ 64"
  shows "(if (of_nat n :: u64) > fsz then fsz else of_nat n) = of_nat (min n (unat fsz))"
    and "unat (of_nat (min n (unat fsz)) :: u64) = min n (unat fsz)"
proof -
  from assms have n: "unat (of_nat n :: u64) = n"
    by (simp add: unat_of_nat)
  show "(if (of_nat n :: u64) > fsz then fsz else of_nat n) = of_nat (min n (unat fsz))"
    using n by (auto simp: word_less_nat_alt min_def)
  have "min n (unat fsz) < 2 ^ 64" using assms by simp
  then show "unat (of_nat (min n (unat fsz)) :: u64) = min n (unat fsz)"
    by (simp add: unat_of_nat)
qed

text \<open>The second part of \<open>handle_client\<close> on an upload request.\<close>

lemma serve_request_upload:
  assumes mode: "c_str mode = ''upload''" and shape: "inbuf c4 = be64 filesize @ rest"
  shows "serve_request E s mode filename c4 =
     (let c5 = c4\<lparr>inbuf := rest, wire := wire c4 @ [Rx (be64 filesize)]\<rparr>;
          existing = (of_nat (length (file_bytes s (c_str filename))) :: u64);
          agreed = (if existing > filesize then filesize else existing)
      in
        if fails E OpRecv 4 then (s, c4)
        else if fails E OpStat 0 \<or> fails E OpSend 0 then (s, c5)
        else snd (handle_upload E (c_str filename) filesize agreed s
                    (c5\<lparr>wire := wire c5 @ [Tx (be64 agreed)]\<rparr>)))"
proof -
  have r: "recv_all E 4 8 c4 = (if fails E OpRecv 4 then None
      else Some (be64 filesize, c4\<lparr>inbuf := rest, wire := wire c4 @ [Rx (be64 filesize)]\<rparr>))"
    using recv_all_prefix [OF shape, of 8 E 4] by simp
  show ?thesis
    unfolding serve_request_def r using mode
    by (simp add: Let_def read64_server wire64_server send_all_eq)
qed

lemma upload_loop_done:
  "\<not> received < filesize \<Longrightarrow> upload_loop E i filename filesize received s c = (0, s, c)"
  by (subst upload_loop.simps) simp

lemma take_pwrite:
  "off \<le> pos \<Longrightarrow> off \<le> length old \<Longrightarrow> take off (pwrite pos buf old) = take off old"
  by (simp add: pwrite_def min_def)

lemma length_pwrite: "length (pwrite pos buf old) = max (length old) (pos + length buf)"
  by (simp add: pwrite_def)

lemma upload_loop_keeps:
  "upload_loop E i name fsz received s c = (rc, s', c') \<Longrightarrow> off \<le> received \<Longrightarrow>
     off \<le> length (file_bytes s name) \<Longrightarrow>
     take off (file_bytes s' name) = take off (file_bytes s name)
     \<and> off \<le> length (file_bytes s' name) \<and> (\<forall>p. p \<noteq> name \<longrightarrow> s' p = s p)"
proof (induction E i name fsz received s c rule: upload_loop.induct)
  case (1 E i name fsz received s c)
  note unfold = upload_loop.simps [of E i name fsz received s c]
  show ?case
  proof (cases "received < fsz")
    case False
    with "1.prems" show ?thesis by (simp add: unfold)
  next
    case True
    let ?buf = "take (if fsz - received > 8192 then 8192 else fsz - received) (inbuf c)"
    let ?c1 = "c\<lparr>inbuf := drop (length ?buf) (inbuf c), wire := wire c @ [Rx ?buf]\<rparr>"
    let ?s1 = "s(name \<mapsto> pwrite received ?buf (file_bytes s name))"
    show ?thesis
    proof (cases "fails E OpRecv i \<or> ?buf = [] \<or> fails E OpFwrite i")
      case stop: True
      with True "1.prems"(1) have "s' = s"
        by (auto simp add: unfold Let_def split: if_splits)
      with "1.prems" show ?thesis by simp
    next
      case go: False
      with True "1.prems"(1)
      have rec: "upload_loop E (Suc i) name fsz (received + length ?buf) ?s1 ?c1 = (rc, s', c')"
        by (simp add: unfold Let_def)
      have fb: "file_bytes ?s1 name = pwrite received ?buf (file_bytes s name)"
        by (simp add: file_bytes_def)
      have le1: "off \<le> received + length ?buf" using "1.prems"(2) by simp
      have le2: "off \<le> length (file_bytes ?s1 name)"
        using "1.prems"(3) unfolding fb length_pwrite by simp
      from go have g: "\<not> fails E OpRecv i" "?buf \<noteq> []" "\<not> fails E OpFwrite i" by simp_all
      have "take off (file_bytes s' name) = take off (file_bytes ?s1 name)
         \<and> off \<le> length (file_bytes s' name) \<and> (\<forall>p. p \<noteq> name \<longrightarrow> s' p = ?s1 p)"
        by (rule "1.IH" [OF True refl refl refl g rec le1 le2])
      then show ?thesis
        using "1.prems"(2,3) unfolding fb by (simp add: take_pwrite)
    qed
  qed
qed

lemma handle_upload_keeps:
  assumes run: "handle_upload E name fsz offset s c = (rc, s', c')"
    and le: "unat offset \<le> length (file_bytes s name)"
    and opened: "\<not> fails E OpFopen 0"
  shows "take (unat offset) (file_bytes s' name) = take (unat offset) (file_bytes s name)
     \<and> unat offset \<le> length (file_bytes s' name) \<and> (\<forall>p. p \<noteq> name \<longrightarrow> s' p = s p)"
proof -
  define old where "old = file_bytes s name"
  define nofile where "nofile \<longleftrightarrow> \<not> (s name \<noteq> None \<and> \<not> fails E OpFopen 0) \<and> fails E OpFopen 1"
  define s1 where "s1 = (if s name \<noteq> None \<and> \<not> fails E OpFopen 0 then s else s(name \<mapsto> []))"
  define trunc where "trunc \<longleftrightarrow> \<not> fails E OpFstat 0
      \<and> (of_nat (length (file_bytes s1 name)) :: u64) > offset"
  define s2 where "s2 = (if trunc then s1(name \<mapsto> take (unat offset) (file_bytes s1 name)) else s1)"
  define notrunc where "notrunc \<longleftrightarrow> trunc \<and> fails E OpFtruncate 0"
  define noseek where "noseek \<longleftrightarrow> fails E OpFseeko 0 \<or> sint offset < 0"
  have unfold: "handle_upload E name fsz offset s c =
      (if nofile then (- 1, s, c)
       else if notrunc then (- 1, s1, c)
       else if noseek then (- 1, s2, c)
       else upload_loop E 5 name (unat fsz) (unat offset) s2 c)"
    unfolding handle_upload_def Let_def nofile_def notrunc_def noseek_def s2_def trunc_def s1_def
    by simp
  have keep1: "file_bytes s1 name = old \<and> (\<forall>p. p \<noteq> name \<longrightarrow> s1 p = s p)"
    using opened by (auto simp add: file_bytes_def s1_def old_def)
  have keep2: "take (unat offset) (file_bytes s2 name) = take (unat offset) old
      \<and> unat offset \<le> length (file_bytes s2 name) \<and> (\<forall>p. p \<noteq> name \<longrightarrow> s2 p = s p)"
  proof -
    have "file_bytes (s1(name \<mapsto> d)) name = d" for d by (simp add: file_bytes_def)
    with le keep1 show ?thesis by (simp add: s2_def old_def)
  qed
  consider (a) "nofile" | (b) "\<not> nofile" "notrunc"
    | (c) "\<not> nofile" "\<not> notrunc" "noseek"
    | (d) "\<not> nofile" "\<not> notrunc" "\<not> noseek"
    by blast
  then show ?thesis
  proof cases
    case a
    with run have "s' = s" by (simp add: unfold)
    with le show ?thesis by simp
  next
    case b
    with run have "s' = s1" by (simp add: unfold)
    with keep1 le show ?thesis by (simp add: old_def)
  next
    case c
    with run have "s' = s2" by (simp add: unfold)
    with keep2 show ?thesis by (simp add: old_def)
  next
    case d
    with run have "upload_loop E 5 name (unat fsz) (unat offset) s2 c = (rc, s', c')"
      by (simp add: unfold)
    from upload_loop_keeps [OF this, of "unat offset"] keep2
    show ?thesis by (simp add: old_def)
  qed
qed

lemma upload_loop_wire:
  "upload_loop E i name fsz received s c = (rc, s', c') \<Longrightarrow>
     \<exists>es. wire c' = wire c @ es \<and> (\<forall>e \<in> set es. \<exists>b. e = Rx b)"
proof (induction E i name fsz received s c rule: upload_loop.induct)
  case (1 E i name fsz received s c)
  note unfold = upload_loop.simps [of E i name fsz received s c]
  show ?case
  proof (cases "received < fsz")
    case False
    with "1.prems" show ?thesis by (simp add: unfold)
  next
    case True
    let ?buf = "take (if fsz - received > 8192 then 8192 else fsz - received) (inbuf c)"
    let ?c1 = "c\<lparr>inbuf := drop (length ?buf) (inbuf c), wire := wire c @ [Rx ?buf]\<rparr>"
    let ?s1 = "s(name \<mapsto> pwrite received ?buf (file_bytes s name))"
    consider (stop) "fails E OpRecv i \<or> ?buf = []"
      | (nowrite) "\<not> (fails E OpRecv i \<or> ?buf = [])" "fails E OpFwrite i"
      | (go) "\<not> fails E OpRecv i" "?buf \<noteq> []" "\<not> fails E OpFwrite i"
      by blast
    then show ?thesis
    proof cases
      case stop
      with True "1.prems" have "c' = c"
        by (auto simp add: unfold Let_def split: if_splits)
      then show ?thesis by simp
    next
      case nowrite
      with True "1.prems" have "c' = ?c1"
        by (auto simp add: unfold Let_def split: if_splits)
      then show ?thesis by simp
    next
      case go
      with True "1.prems"
      have rec: "upload_loop E (Suc i) name fsz (received + length ?buf) ?s1 ?c1 = (rc, s', c')"
        by (simp add: unfold Let_def)
      from "1.IH" [OF True refl refl refl go rec]
      obtain es where "wire c' = wire ?c1 @ es" "\<forall>e \<in> set es. \<exists>b. e = Rx b" by blast
      then have "wire c' = wire c @ (Rx ?buf # es) \<and> (\<forall>e \<in> set (Rx ?buf # es). \<exists>b. e = Rx b)"
        by simp
      then show ?thesis by blast
    qed
  qed
qed

lemma handle_upload_wire:
  assumes run: "handle_upload E name fsz offset s c = (rc, s', c')"
  shows "\<exists>es. wire c' = wire c @ es \<and> (\<forall>e \<in> set es. \<exists>b. e = Rx b)"
proof -
  define s1 where "s1 = (if s name \<noteq> None \<and> \<not> fails E OpFopen 0 then s else s(name \<mapsto> []))"
  define trunc where "trunc \<longleftrightarrow> \<not> fails E OpFstat 0
      \<and> (of_nat (length (file_bytes s1 name)) :: u64) > offset"
  define s2 where "s2 = (if trunc then s1(name \<mapsto> take (unat offset) (file_bytes s1 name)) else s1)"
  define stop where "stop \<longleftrightarrow> (\<not> (s name \<noteq> None \<and> \<not> fails E OpFopen 0) \<and> fails E OpFopen 1)
     \<or> (trunc \<and> fails E OpFtruncate 0)
     \<or> (fails E OpFseeko 0 \<or> sint offset < 0)"
  have unfold: "snd (snd (handle_upload E name fsz offset s c)) =
      (if stop then c else snd (snd (upload_loop E 5 name (unat fsz) (unat offset) s2 c)))"
    unfolding handle_upload_def Let_def stop_def s2_def trunc_def s1_def by simp
  show ?thesis
  proof (cases stop)
    case True
    with unfold run have "c' = c" by simp
    then show ?thesis by simp
  next
    case False
    obtain rc1 s1 c1 where l: "upload_loop E 5 name (unat fsz) (unat offset) s2 c = (rc1, s1, c1)"
      by (cases "upload_loop E 5 name (unat fsz) (unat offset) s2 c") auto
    with False unfold run have "c' = c1" by simp
    with upload_loop_wire [OF l] show ?thesis by simp
  qed
qed

lemma fails_fault_free [simp]: "fails fault_free op k = False" "host fault_free = LittleEndian"
  by (simp_all add: fault_free_def)

text \<open>An upload request with both length prefixes in range, on any environment.\<close>

lemma handle_client_upload_cases:
  assumes shape: "inbuf c = be32 mode_len @ mode @ be32 filename_len @ filename @ be64 filesize @ rest"
    and lens: "length mode = unat mode_len" "length filename = unat filename_len"
    and m: "mode_len \<noteq> 0" "mode_len < 32" and n: "filename_len \<noteq> 0" "filename_len < 512"
    and mode: "c_str mode = ''upload''"
    and size: "length (file_bytes s (c_str filename)) < 2 ^ 64"
  obtains (dropped) "fst (handle_client E s c) = s"
      "fails E OpRecv 0 \<or> fails E OpRecv 1 \<or> fails E OpRecv 2 \<or> fails E OpRecv 3
       \<or> fails E OpRecv 4 \<or> fails E OpStat 0 \<or> fails E OpSend 0"
  | (served) "handle_client E s c =
       snd (handle_upload E (c_str filename) filesize
         (of_nat (min (length (file_bytes s (c_str filename))) (unat filesize))) s
         (c\<lparr>inbuf := rest,
            wire := wire c @ [Rx (be32 mode_len), Rx mode, Rx (be32 filename_len), Rx filename,
              Rx (be64 filesize),
              Tx (be64 (of_nat (min (length (file_bytes s (c_str filename))) (unat filesize))))]\<rparr>))"
      "\<not> fails E OpRecv 0" "\<not> fails E OpRecv 1" "\<not> fails E OpRecv 2" "\<not> fails E OpRecv 3"
      "\<not> fails E OpRecv 4" "\<not> fails E OpStat 0" "\<not> fails E OpSend 0"
proof -
  let ?c4 = "c\<lparr>inbuf := be64 filesize @ rest,
      wire := wire c @ [Rx (be32 mode_len), Rx mode, Rx (be32 filename_len), Rx filename]\<rparr>"
  have hdr: "handle_client E s c =
     (if fails E OpRecv 0 then (s, c)
      else if fails E OpRecv 1 then (s, c\<lparr>inbuf := mode @ be32 filename_len @ filename @ be64 filesize @ rest,
             wire := wire c @ [Rx (be32 mode_len)]\<rparr>)
      else if fails E OpRecv 2 then (s, c\<lparr>inbuf := be32 filename_len @ filename @ be64 filesize @ rest,
             wire := wire c @ [Rx (be32 mode_len), Rx mode]\<rparr>)
      else if fails E OpRecv 3 then (s, c\<lparr>inbuf := filename @ be64 filesize @ rest,
             wire := wire c @ [Rx (be32 mode_len), Rx mode, Rx (be32 filename_len)]\<rparr>)
      else serve_request E s mode filename ?c4)"
    by (rule handle_client_header [OF shape lens m n])
  have srv: "serve_request E s mode filename ?c4 =
     (let c5 = ?c4\<lparr>inbuf := rest, wire := wire ?c4 @ [Rx (be64 filesize)]\<rparr>;
          existing = (of_nat (length (file_bytes s (c_str filename))) :: u64);
          agreed = (if existing > filesize then filesize else existing)
      in
        if fails E OpRecv 4 then (s, ?c4)
        else if fails E OpStat 0 \<or> fails E OpSend 0 then (s, c5)
        else snd (handle_upload E (c_str filename) filesize agreed s
                    (c5\<lparr>wire := wire c5 @ [Tx (be64 agreed)]\<rparr>)))"
    by (rule serve_request_upload [OF mode]) simp
  show thesis
  proof (cases "fails E OpRecv 0 \<or> fails E OpRecv 1 \<or> fails E OpRecv 2 \<or> fails E OpRecv 3
       \<or> fails E OpRecv 4 \<or> fails E OpStat 0 \<or> fails E OpSend 0")
    case True
    then have "fst (handle_client E s c) = s"
      unfolding hdr srv by (auto simp add: Let_def)
    then show thesis using True by (rule dropped)
  next
    case False
    then have "handle_client E s c =
       snd (handle_upload E (c_str filename) filesize
         (of_nat (min (length (file_bytes s (c_str filename))) (unat filesize))) s
         (c\<lparr>inbuf := rest,
            wire := wire c @ [Rx (be32 mode_len), Rx mode, Rx (be32 filename_len), Rx filename,
              Rx (be64 filesize),
              Tx (be64 (of_nat (min (length (file_bytes s (c_str filename))) (unat filesize))))]\<rparr>))"
      unfolding hdr srv by (simp add: Let_def agreed_min(1) [OF size])
    with False show thesis by (intro served) simp_all
  qed
qed

text \<open>
  Claim C9, amended. For every incoming connection whose mode length prefix is 0 or at
  least 32, or whose file name length prefix is 0 or at least 512, or whose mode, read as a
  C string (the bytes before its first zero byte), is neither \<open>upload\<close> nor \<open>download\<close>, the
  server drops the connection: whatever calls fail, it sends nothing and leaves every file
  as it was.
\<close>

theorem handle_client_rejects:
  "(inbuf c = be32 mode_len @ rest \<and> (mode_len = 0 \<or> 32 \<le> mode_len)
      \<longrightarrow> fst (handle_client E s c) = s
          \<and> sent_of (wire (snd (handle_client E s c))) = sent_of (wire c))
   \<and> (inbuf c = be32 mode_len @ mode @ be32 filename_len @ rest \<and> length mode = unat mode_len
        \<and> (filename_len = 0 \<or> 512 \<le> filename_len)
      \<longrightarrow> fst (handle_client E s c) = s
          \<and> sent_of (wire (snd (handle_client E s c))) = sent_of (wire c))
   \<and> (inbuf c = be32 mode_len @ mode @ be32 filename_len @ filename @ rest
        \<and> length mode = unat mode_len \<and> length filename = unat filename_len
        \<and> c_str mode \<noteq> ''upload'' \<and> c_str mode \<noteq> ''download''
      \<longrightarrow> fst (handle_client E s c) = s
          \<and> sent_of (wire (snd (handle_client E s c))) = sent_of (wire c))"
  using handle_client_bad_mode_len [of c mode_len rest E s]
    handle_client_bad_filename_len [of c mode_len mode filename_len rest E s]
    handle_client_bad_mode [of c mode_len mode filename_len filename rest E s]
  by blast

theorem handle_client_rejects_witness:
  "fst (handle_client fault_free [''f'' \<mapsto> ''ab'']
          \<lparr>inbuf = be32 0 @ ''junk'', wire = []\<rparr>) = [''f'' \<mapsto> ''ab'']
   \<and> sent_of (wire (snd (handle_client fault_free [''f'' \<mapsto> ''ab'']
          \<lparr>inbuf = be32 0 @ ''junk'', wire = []\<rparr>))) = []
   \<and> fst (handle_client fault_free [''f'' \<mapsto> ''ab'']
          \<lparr>inbuf = be32 6 @ ''upload'' @ be32 512 @ ''junk'', wire = []\<rparr>) = [''f'' \<mapsto> ''ab'']
   \<and> sent_of (wire (snd (handle_client fault_free [''f'' \<mapsto> ''ab'']
          \<lparr>inbuf = be32 6 @ ''upload'' @ be32 512 @ ''junk'', wire = []\<rparr>))) = []
   \<and> fst (handle_client fault_free [''f'' \<mapsto> ''ab'']
          \<lparr>inbuf = be32 6 @ ''delete'' @ be32 1 @ ''f'' @ be64 3, wire = []\<rparr>) = [''f'' \<mapsto> ''ab'']
   \<and> sent_of (wire (snd (handle_client fault_free [''f'' \<mapsto> ''ab'']
          \<lparr>inbuf = be32 6 @ ''delete'' @ be32 1 @ ''f'' @ be64 3, wire = []\<rparr>))) = []"
  using
    handle_client_rejects [where c = "\<lparr>inbuf = be32 0 @ ''junk'', wire = []\<rparr>"
      and mode_len = 0 and rest = "''junk''" and E = fault_free and s = "[''f'' \<mapsto> ''ab'']"]
    handle_client_rejects [where c = "\<lparr>inbuf = be32 6 @ ''upload'' @ be32 512 @ ''junk'', wire = []\<rparr>"
      and mode_len = 6 and mode = "''upload''" and filename_len = 512 and rest = "''junk''"
      and E = fault_free and s = "[''f'' \<mapsto> ''ab'']"]
    handle_client_rejects [where c = "\<lparr>inbuf = be32 6 @ ''delete'' @ be32 1 @ ''f'' @ be64 3, wire = []\<rparr>"
      and mode_len = 6 and mode = "''delete''" and filename_len = 1 and filename = "''f''"
      and rest = "be64 3" and E = fault_free and s = "[''f'' \<mapsto> ''ab'']"]
  by (simp add: c_str_def)


lemma handle_client_upload_fault_free:
  assumes "inbuf c = be32 mode_len @ mode @ be32 filename_len @ filename @ be64 filesize @ rest"
    and "length mode = unat mode_len" "length filename = unat filename_len"
    and "mode_len \<noteq> 0" "mode_len < 32" and "filename_len \<noteq> 0" "filename_len < 512"
    and "c_str mode = ''upload''"
    and "length (file_bytes s (c_str filename)) < 2 ^ 64"
  shows "handle_client fault_free s c =
       snd (handle_upload fault_free (c_str filename) filesize
         (of_nat (min (length (file_bytes s (c_str filename))) (unat filesize))) s
         (c\<lparr>inbuf := rest,
            wire := wire c @ [Rx (be32 mode_len), Rx mode, Rx (be32 filename_len), Rx filename,
              Rx (be64 filesize),
              Tx (be64 (of_nat (min (length (file_bytes s (c_str filename))) (unat filesize))))]\<rparr>))"
  using assms by (rule handle_client_upload_cases [where E = fault_free]) simp_all

lemma handle_upload_fault_free:
  "handle_upload fault_free name fsz offset s c =
     (let old = file_bytes s name;
          s2 = s(name \<mapsto> (if (of_nat (length old) :: u64) > offset then take (unat offset) old else old))
      in if sint offset < 0 then (- 1, s2, c)
         else upload_loop fault_free 5 name (unat fsz) (unat offset) s2 c)"
proof (cases "s name")
  case None
  then show ?thesis by (simp add: handle_upload_def Let_def file_bytes_def)
next
  case (Some old)
  then have same: "s(name \<mapsto> old) = s" by (simp add: fun_upd_idem)
  from Some show ?thesis by (simp add: handle_upload_def Let_def file_bytes_def same)
qed

text \<open>
  Claim C1 fails as stated: the server holds five bytes of \<open>f\<close>, the client declares a size
  of three, and the server is left with three bytes (\<open>ftruncate\<close> to the agreed offset).
\<close>

theorem upload_truncates_longer_copy:
  "file_bytes (fst (handle_client fault_free [''f'' \<mapsto> ''abcde'']
      \<lparr>inbuf = be32 6 @ ''upload'' @ be32 1 @ ''f'' @ be64 3, wire = []\<rparr>)) ''f'' = ''abc''"
proof -
  have "handle_client fault_free [''f'' \<mapsto> ''abcde'']
      \<lparr>inbuf = be32 6 @ ''upload'' @ be32 1 @ ''f'' @ be64 3 @ [], wire = []\<rparr>
    = snd (handle_upload fault_free (c_str ''f'') 3
         (of_nat (min (length (file_bytes [''f'' \<mapsto> ''abcde''] (c_str ''f''))) (unat (3::u64))))
         [''f'' \<mapsto> ''abcde'']
         (\<lparr>inbuf = be32 6 @ ''upload'' @ be32 1 @ ''f'' @ be64 3 @ [], wire = []\<rparr>
           \<lparr>inbuf := [],
            wire := wire \<lparr>inbuf = be32 6 @ ''upload'' @ be32 1 @ ''f'' @ be64 3 @ [], wire = []\<rparr>
              @ [Rx (be32 6), Rx ''upload'', Rx (be32 1), Rx ''f'', Rx (be64 3),
              Tx (be64 (of_nat (min (length (file_bytes [''f'' \<mapsto> ''abcde''] (c_str ''f'')))
                 (unat (3::u64)))))]\<rparr>))"
    by (rule handle_client_upload_fault_free) (simp_all add: c_str_def file_bytes_def)
  then show ?thesis
    by (simp add: c_str_def file_bytes_def handle_upload_fault_free upload_loop_done)
qed


lemma sint_of_nat_small:
  assumes "n < 2 ^ 63"
  shows "\<not> sint (of_nat n :: u64) < 0"
proof -
  have "sint (of_nat n :: u64) = signed_take_bit 63 (int n)"
    by (simp add: signed_of_nat)
  also have "\<dots> = int n"
    using assms by (intro signed_take_bit_int_eq_self) simp_all
  finally show ?thesis by simp
qed

text \<open>
  Claim C1, amended. With \<open>E\<close> the length of the server's copy and \<open>S\<close> the declared size,
  an upload in which the first \<open>fopen\<close> of \<open>handle_upload\<close> (mode \<open>"r+b"\<close>) does not fail on the
  existing copy, completed or aborted at any point and whatever other calls fail, leaves
  the first \<open>min E S\<close> bytes of the server's copy unchanged, leaves it at least \<open>min E S\<close>
  bytes long (so never shorter than before when \<open>E \<le> S\<close>) and touches no other file. When
  the copy is longer than the declared size and no call fails, the server truncates it to
  its first \<open>S\<close> bytes.
\<close>

theorem upload_keeps_agreed_prefix:
  assumes shape: "inbuf c = be32 mode_len @ mode @ be32 filename_len @ filename @ be64 filesize @ rest"
    and lens: "length mode = unat mode_len" "length filename = unat filename_len"
    and m: "mode_len \<noteq> 0" "mode_len < 32" and n: "filename_len \<noteq> 0" "filename_len < 512"
    and mode: "c_str mode = ''upload''"
    and size: "length (file_bytes s (c_str filename)) < 2 ^ 63"
    and opened: "\<not> fails E OpFopen 0"
  shows "take (min (length (file_bytes s (c_str filename))) (unat filesize))
           (file_bytes (fst (handle_client E s c)) (c_str filename))
         = take (min (length (file_bytes s (c_str filename))) (unat filesize))
             (file_bytes s (c_str filename))
     \<and> min (length (file_bytes s (c_str filename))) (unat filesize)
         \<le> length (file_bytes (fst (handle_client E s c)) (c_str filename))
     \<and> (\<forall>p. p \<noteq> c_str filename \<longrightarrow> fst (handle_client E s c) p = s p)
     \<and> (unat filesize < length (file_bytes s (c_str filename))
          \<and> (\<forall>k. \<not> fails E OpRecv k) \<and> \<not> fails E OpStat 0 \<and> \<not> fails E OpSend 0
          \<and> \<not> fails E OpFstat 0 \<and> \<not> fails E OpFtruncate 0 \<and> \<not> fails E OpFseeko 0
        \<longrightarrow> file_bytes (fst (handle_client E s c)) (c_str filename)
            = take (unat filesize) (file_bytes s (c_str filename)))"
proof -
  let ?name = "c_str filename"
  let ?old = "file_bytes s ?name"
  let ?m = "min (length ?old) (unat filesize)"
  from size have size64: "length ?old < 2 ^ 64" by simp
  have um: "unat (of_nat ?m :: u64) = ?m" by (rule agreed_min(2) [OF size64])
  from shape lens m n mode size64 show ?thesis
  proof (cases rule: handle_client_upload_cases [where E = E])
    case dropped
    then show ?thesis by auto
  next
    case served
    obtain rc s' c' where run: "handle_upload E ?name filesize (of_nat ?m) s
         (c\<lparr>inbuf := rest,
            wire := wire c @ [Rx (be32 mode_len), Rx mode, Rx (be32 filename_len), Rx filename,
              Rx (be64 filesize), Tx (be64 (of_nat ?m))]\<rparr>) = (rc, s', c')"
      by (metis prod_cases3)
    with served(1) have fst: "fst (handle_client E s c) = s'" by simp
    from handle_upload_keeps [OF run _ opened] um
    have keep: "take ?m (file_bytes s' ?name) = take ?m ?old \<and> ?m \<le> length (file_bytes s' ?name)
        \<and> (\<forall>p. p \<noteq> ?name \<longrightarrow> s' p = s p)"
      by simp
    have "file_bytes s' ?name = take (unat filesize) ?old"
      if longer: "unat filesize < length ?old" and ok: "\<not> fails E OpFstat 0"
        "\<not> fails E OpFtruncate 0" "\<not> fails E OpFseeko 0"
    proof -
      from longer obtain bytes where exists: "s ?name = Some bytes"
        by (cases "s ?name") (simp_all add: file_bytes_def)
      from longer have meq: "?m = unat filesize" by simp
      then have off: "(of_nat ?m :: u64) = filesize" by simp
      from longer size have "unat filesize < 2 ^ 63" by simp
      with sint_of_nat_small [of "unat filesize"] have pos: "\<not> sint filesize < 0" by simp
      from longer have gt: "(of_nat (length ?old) :: u64) > filesize"
        using size64 by (simp add: word_less_nat_alt unat_of_nat)
      from run [unfolded off] ok opened pos gt exists show ?thesis
        by (auto simp add: handle_upload_def Let_def upload_loop_done file_bytes_def)
    qed
    with keep fst show ?thesis by simp
  qed
qed


lemma c_str_f [simp]: "c_str ''f'' = ''f''"
  by (simp add: c_str_def)

lemma c_str_upload [simp]: "c_str ''upload'' = ''upload''"
  by (simp add: c_str_def)

lemma c_str_download [simp]: "c_str ''download'' = ''download''"
  by (simp add: c_str_def)

lemma file_bytes_upd [simp]: "file_bytes (s(p \<mapsto> d)) p = d"
  by (simp add: file_bytes_def)

theorem upload_keeps_agreed_prefix_witness:
  "take 2 (file_bytes (fst (handle_client fault_free [''f'' \<mapsto> ''ab'']
      \<lparr>inbuf = be32 6 @ ''upload'' @ be32 1 @ ''f'' @ be64 3 @ ''c'', wire = []\<rparr>)) ''f'') = ''ab''
   \<and> 2 \<le> length (file_bytes (fst (handle_client fault_free [''f'' \<mapsto> ''ab'']
      \<lparr>inbuf = be32 6 @ ''upload'' @ be32 1 @ ''f'' @ be64 3 @ ''c'', wire = []\<rparr>)) ''f'')
   \<and> file_bytes (fst (handle_client fault_free [''f'' \<mapsto> ''abcde'']
      \<lparr>inbuf = be32 6 @ ''upload'' @ be32 1 @ ''f'' @ be64 3 @ ''c'', wire = []\<rparr>)) ''f''
     = ''abc''"
proof -
  let ?c = "\<lparr>inbuf = be32 6 @ ''upload'' @ be32 1 @ ''f'' @ be64 3 @ ''c'', wire = []\<rparr>"
  have m1: "min (length (file_bytes [''f'' \<mapsto> ''ab''] (c_str ''f''))) (unat (3::u64)) = 2"
    by simp
  have "take (min (length (file_bytes [''f'' \<mapsto> ''ab''] (c_str ''f''))) (unat (3::u64)))
           (file_bytes (fst (handle_client fault_free [''f'' \<mapsto> ''ab''] ?c)) (c_str ''f''))
         = take (min (length (file_bytes [''f'' \<mapsto> ''ab''] (c_str ''f''))) (unat (3::u64)))
             (file_bytes [''f'' \<mapsto> ''ab''] (c_str ''f''))
     \<and> min (length (file_bytes [''f'' \<mapsto> ''ab''] (c_str ''f''))) (unat (3::u64))
         \<le> length (file_bytes (fst (handle_client fault_free [''f'' \<mapsto> ''ab''] ?c)) (c_str ''f''))"
    using upload_keeps_agreed_prefix [where c = ?c and mode_len = 6 and mode = "''upload''"
      and filename_len = 1 and filename = "''f''" and filesize = 3 and rest = "''c''"
      and s = "[''f'' \<mapsto> ''ab'']" and E = fault_free]
    by simp
  then have first: "take 2 (file_bytes (fst (handle_client fault_free [''f'' \<mapsto> ''ab''] ?c)) ''f'') = ''ab''
      \<and> 2 \<le> length (file_bytes (fst (handle_client fault_free [''f'' \<mapsto> ''ab''] ?c)) ''f'')"
    unfolding m1 by simp
  have second: "file_bytes (fst (handle_client fault_free [''f'' \<mapsto> ''abcde''] ?c)) ''f'' = ''abc''"
    using upload_keeps_agreed_prefix [where c = ?c and mode_len = 6 and mode = "''upload''"
      and filename_len = 1 and filename = "''f''" and filesize = 3 and rest = "''c''"
      and s = "[''f'' \<mapsto> ''abcde'']" and E = fault_free]
    by simp
  from first second show ?thesis by simp
qed

lemma fails_first_fopen_fails [simp]:
  "fails first_fopen_fails op k = (op = OpFopen \<and> k = 0)" "host first_fopen_fails = LittleEndian"
  by (simp_all add: first_fopen_fails_def)

text \<open>
  The case left out above. When the first \<open>fopen\<close> fails although the copy exists (five
  bytes here, and a declared size of five), \<open>fopen\<close> with \<open>"wb+"\<close> empties the copy. The
  server has replied with the agreed offset 5, so it expects no byte, returns 0 and is left
  with an empty file.
\<close>

lemma upload_fallback_empties_copy:
  "fst (handle_client first_fopen_fails [''f'' \<mapsto> ''abcde'']
      \<lparr>inbuf = be32 6 @ ''upload'' @ be32 1 @ ''f'' @ be64 5, wire = []\<rparr>) ''f'' = Some []
   \<and> sent_of (wire (snd (handle_client first_fopen_fails [''f'' \<mapsto> ''abcde'']
      \<lparr>inbuf = be32 6 @ ''upload'' @ be32 1 @ ''f'' @ be64 5, wire = []\<rparr>))) = be64 5"
proof -
  let ?c = "\<lparr>inbuf = be32 6 @ ''upload'' @ be32 1 @ ''f'' @ be64 5 @ [], wire = []\<rparr>"
  have "handle_client first_fopen_fails [''f'' \<mapsto> ''abcde''] ?c
    = snd (handle_upload first_fopen_fails (c_str ''f'') 5
         (of_nat (min (length (file_bytes [''f'' \<mapsto> ''abcde''] (c_str ''f''))) (unat (5::u64))))
         [''f'' \<mapsto> ''abcde'']
         (?c\<lparr>inbuf := [],
            wire := wire ?c
              @ [Rx (be32 6), Rx ''upload'', Rx (be32 1), Rx ''f'', Rx (be64 5),
              Tx (be64 (of_nat (min (length (file_bytes [''f'' \<mapsto> ''abcde''] (c_str ''f'')))
                 (unat (5::u64)))))]\<rparr>))"
    by (rule handle_client_upload_cases [where E = first_fopen_fails and s = "[''f'' \<mapsto> ''abcde'']"
          and c = ?c and mode_len = 6 and mode = "''upload''" and filename_len = 1
          and filename = "''f''" and filesize = 5 and rest = "[]"]) simp_all
  then show ?thesis
    by (simp add: handle_upload_def Let_def upload_loop_done)
qed

text \<open>
  Claim C2. For an upload request with declared size \<open>S\<close>, when the server's copy of the
  named file has length \<open>E\<close> (0 when there is none) and the receives, \<open>stat\<close> and the send
  do not fail, the server's log is: the five fields of the request received, then the
  agreed offset \<open>min E S\<close> sent as eight bytes in network order, then only receives (the
  file bytes).
\<close>

theorem upload_reply_is_min:
  assumes shape: "inbuf c = be32 mode_len @ mode @ be32 filename_len @ filename @ be64 filesize @ rest"
    and lens: "length mode = unat mode_len" "length filename = unat filename_len"
    and m: "mode_len \<noteq> 0" "mode_len < 32" and n: "filename_len \<noteq> 0" "filename_len < 512"
    and mode: "c_str mode = ''upload''"
    and size: "length (file_bytes s (c_str filename)) < 2 ^ 63"
    and ok: "\<forall>k \<le> 4. \<not> fails E OpRecv k" "\<not> fails E OpStat 0" "\<not> fails E OpSend 0"
  shows "\<exists>es. wire (snd (handle_client E s c))
           = wire c @ [Rx (be32 mode_len), Rx mode, Rx (be32 filename_len), Rx filename,
                       Rx (be64 filesize),
                       Tx (be64 (of_nat (min (length (file_bytes s (c_str filename)))
                                              (unat filesize))))] @ es
         \<and> (\<forall>e \<in> set es. \<exists>b. e = Rx b)"
proof -
  let ?m = "min (length (file_bytes s (c_str filename))) (unat filesize)"
  from size have size64: "length (file_bytes s (c_str filename)) < 2 ^ 64" by simp
  from shape lens m n mode size64 show ?thesis
  proof (cases rule: handle_client_upload_cases [where E = E])
    case dropped
    with ok show ?thesis by auto
  next
    case served
    obtain rc s' c' where run: "handle_upload E (c_str filename) filesize (of_nat ?m) s
         (c\<lparr>inbuf := rest,
            wire := wire c @ [Rx (be32 mode_len), Rx mode, Rx (be32 filename_len), Rx filename,
              Rx (be64 filesize), Tx (be64 (of_nat ?m))]\<rparr>) = (rc, s', c')"
      by (metis prod_cases3)
    with served(1) have "snd (handle_client E s c) = c'" by simp
    with handle_upload_wire [OF run] show ?thesis by simp
  qed
qed

theorem upload_reply_is_min_witness:
  "take 6 (wire (snd (handle_client fault_free [''f'' \<mapsto> ''ab'']
      \<lparr>inbuf = be32 6 @ ''upload'' @ be32 1 @ ''f'' @ be64 3 @ ''c'', wire = []\<rparr>)))
   = [Rx (be32 6), Rx ''upload'', Rx (be32 1), Rx ''f'', Rx (be64 3), Tx (be64 2)]"
  using
    upload_reply_is_min [where c = "\<lparr>inbuf = be32 6 @ ''upload'' @ be32 1 @ ''f'' @ be64 3 @ ''c'', wire = []\<rparr>"
      and mode_len = 6 and mode = "''upload''" and filename_len = 1 and filename = "''f''"
      and filesize = 3 and rest = "''c''" and s = "[''f'' \<mapsto> ''ab'']" and E = fault_free]
  by auto

text \<open>
  Claim C9 fails as stated: the eight mode bytes \<open>upload\<close>, a zero byte and \<open>x\<close> are neither
  \<open>upload\<close> nor \<open>download\<close>, yet \<open>strcmp\<close> reads the buffer up to the zero byte: the server
  replies with the agreed offset and creates the file.
\<close>

theorem mode_with_zero_byte_accepted:
  "''upload'' @ [CHR 0x00, CHR ''x''] \<noteq> ''upload''
   \<and> ''upload'' @ [CHR 0x00, CHR ''x''] \<noteq> ''download''
   \<and> sent_of (wire (snd (handle_client fault_free Map.empty
        \<lparr>inbuf = be32 8 @ (''upload'' @ [CHR 0x00, CHR ''x'']) @ be32 1 @ ''f'' @ be64 0,
         wire = []\<rparr>))) = be64 0
   \<and> fst (handle_client fault_free Map.empty
        \<lparr>inbuf = be32 8 @ (''upload'' @ [CHR 0x00, CHR ''x'']) @ be32 1 @ ''f'' @ be64 0,
         wire = []\<rparr>) ''f'' = Some []"
proof -
  let ?c = "\<lparr>inbuf = be32 8 @ (''upload'' @ [CHR 0x00, CHR ''x'']) @ be32 1 @ ''f'' @ be64 0 @ [],
         wire = []\<rparr>"
  have "handle_client fault_free Map.empty ?c
    = snd (handle_upload fault_free (c_str ''f'') 0
         (of_nat (min (length (file_bytes Map.empty (c_str ''f''))) (unat (0::u64))))
         Map.empty
         (?c\<lparr>inbuf := [],
            wire := wire ?c
              @ [Rx (be32 8), Rx (''upload'' @ [CHR 0x00, CHR ''x'']), Rx (be32 1), Rx ''f'',
                 Rx (be64 0),
              Tx (be64 (of_nat (min (length (file_bytes Map.empty (c_str ''f'')))
                 (unat (0::u64)))))]\<rparr>))"
    by (rule handle_client_upload_fault_free) (simp_all add: c_str_def file_bytes_def)
  then show ?thesis
    by (simp add: c_str_def file_bytes_def handle_upload_fault_free upload_loop_done)
qed

section \<open>Download on the server: lemmas\<close>

lemma chunks_Nil [simp]: "chunks n [] = []"
  by (subst chunks.simps) simp

lemma concat_chunks: "0 < n \<Longrightarrow> concat (chunks n xs) = xs"
proof (induction n xs rule: chunks.induct)
  case (1 n xs)
  note unfold = chunks.simps [of n xs]
  show ?case
  proof (cases "xs = []")
    case True
    then show ?thesis by simp
  next
    case False
    with "1.prems" "1.IH" have "concat (chunks n (drop n xs)) = drop n xs" by simp
    with False "1.prems" show ?thesis by (simp add: unfold)
  qed
qed

lemma sent_of_map_Tx [simp]: "sent_of (map Tx bs) = concat bs"
  by (induction bs) simp_all

lemma download_loop_all:
  "\<forall>k. \<not> fails E OpSend k \<Longrightarrow> \<forall>k. \<not> fails E OpFread k \<Longrightarrow>
     download_loop E i data c = (0, c\<lparr>wire := wire c @ map Tx (chunks 8192 data)\<rparr>)"
proof (induction E i data c rule: download_loop.induct)
  case (1 E i rest c)
  note unfold = download_loop.simps [of E i rest c] and cunfold = chunks.simps [of 8192 rest]
  show ?case
  proof (cases "rest = []")
    case True
    have "download_loop E i [] c = (0, c)"
      using "1.prems" by (subst download_loop.simps) simp
    with True show ?thesis by simp
  next
    case False
    let ?c1 = "c\<lparr>wire := wire c @ [Tx (take 8192 rest)]\<rparr>"
    from False have ne: "take 8192 rest \<noteq> []" by simp
    from "1.prems" ne have snd: "send_all E (2 + i) (take 8192 rest) c = Some ?c1"
      by (simp add: send_all_eq)
    from "1.prems" have nf: "\<not> fails E OpFread i" by simp
    have "download_loop E (Suc i) (drop 8192 rest) ?c1
        = (0, ?c1\<lparr>wire := wire ?c1 @ map Tx (chunks 8192 (drop 8192 rest))\<rparr>)"
      by (rule "1.IH" [OF nf ne snd "1.prems"])
    with nf ne snd False show ?thesis
      by (simp add: unfold cunfold)
  qed
qed

lemma offset_min:
  assumes "n < 2 ^ 64"
  shows "(if client_offset > (of_nat n :: u64) then of_nat n else client_offset)
           = of_nat (min (unat client_offset) n)"
    and "unat (of_nat (min (unat client_offset) n) :: u64) = min (unat client_offset) n"
proof -
  from assms have n: "unat (of_nat n :: u64) = n"
    by (simp add: unat_of_nat)
  show "(if client_offset > (of_nat n :: u64) then of_nat n else client_offset)
           = of_nat (min (unat client_offset) n)"
    using n by (auto simp: word_less_nat_alt min_def)
  have "min (unat client_offset) n < 2 ^ 64" using assms by simp
  then show "unat (of_nat (min (unat client_offset) n) :: u64) = min (unat client_offset) n"
    by (simp add: unat_of_nat)
qed

text \<open>
  Claim C3. For a download request with client offset \<open>L\<close> against a file of \<open>F\<close> bytes, when
  no call fails, \<open>handle_download\<close> returns 0 and what it sends is exactly: \<open>F\<close>, then
  \<open>server_offset = min L F\<close>, each as eight bytes in network order, then the bytes of the file
  from \<open>server_offset\<close> to its end in pieces of at most 8192 bytes; the pieces together are
  that rest of the file, so nothing is streamed when \<open>server_offset\<close> is \<open>F\<close>.
\<close>

theorem download_streams_rest:
  assumes exists: "s filename = Some content" and size: "length content < 2 ^ 63"
    and ok: "\<not> fails E OpFopen 0" "\<not> fails E OpStat 0" "\<not> fails E OpFseeko 0"
      "\<forall>k. \<not> fails E OpSend k" "\<forall>k. \<not> fails E OpFread k"
  shows "handle_download E filename client_offset s c =
           (0, c\<lparr>wire := wire c @
                  [Tx (be64 (of_nat (length content))),
                   Tx (be64 (of_nat (min (unat client_offset) (length content))))]
                  @ map Tx (chunks 8192 (drop (min (unat client_offset) (length content)) content))\<rparr>)
     \<and> concat (chunks 8192 (drop (min (unat client_offset) (length content)) content))
         = drop (min (unat client_offset) (length content)) content"
proof -
  define F where "F = (of_nat (length content) :: u64)"
  define m where "m = min (unat client_offset) (length content)"
  define so where "so = (if client_offset > F then F else client_offset)"
  from size have size64: "length content < 2 ^ 64" by simp
  have off: "so = of_nat m" and um: "unat (of_nat m :: u64) = m"
    unfolding so_def F_def m_def by (rule offset_min [OF size64])+
  have uF: "unat F = length content" using size64 by (simp add: F_def unat_of_nat)
  define c2 where "c2 = c\<lparr>wire := wire c @ [Tx (be64 F), Tx (be64 so)]\<rparr>"
  have unfold: "handle_download E filename client_offset s c =
      (if so \<ge> F then (0, c2) else download_loop E 0 (drop (unat so) content) c2)"
    using exists ok
    by (simp add: handle_download_def Let_def wire64_server send_all_eq F_def so_def c2_def)
  have loop: "download_loop E 0 (drop (unat so) content) c2
      = (0, c2\<lparr>wire := wire c2 @ map Tx (chunks 8192 (drop (unat so) content))\<rparr>)"
    by (rule download_loop_all [OF ok(4,5)])
  have "handle_download E filename client_offset s c
      = (0, c2\<lparr>wire := wire c2 @ map Tx (chunks 8192 (drop (unat so) content))\<rparr>)"
  proof (cases "so \<ge> F")
    case True
    then have "length content \<le> unat so" using uF by (simp add: word_le_nat_alt)
    then have "drop (unat so) content = []" by simp
    with True unfold show ?thesis by simp
  next
    case False
    with unfold loop show ?thesis by simp
  qed
  then have "handle_download E filename client_offset s c =
           (0, c\<lparr>wire := wire c @ [Tx (be64 F), Tx (be64 (of_nat m))]
                  @ map Tx (chunks 8192 (drop m content))\<rparr>)"
    by (simp add: c2_def off um)
  moreover have "concat (chunks 8192 (drop m content)) = drop m content"
    by (rule concat_chunks) simp
  ultimately show ?thesis unfolding F_def m_def by (rule conjI)
qed

theorem download_streams_rest_witness:
  "handle_download fault_free ''f'' 2 [''f'' \<mapsto> ''abcde''] \<lparr>inbuf = [], wire = []\<rparr>
     = (0, \<lparr>inbuf = [], wire = [Tx (be64 5), Tx (be64 2), Tx ''cde'']\<rparr>)
   \<and> handle_download fault_free ''f'' 9 [''f'' \<mapsto> ''abcde''] \<lparr>inbuf = [], wire = []\<rparr>
     = (0, \<lparr>inbuf = [], wire = [Tx (be64 5), Tx (be64 5)]\<rparr>)"
proof -
  let ?c0 = "\<lparr>inbuf = [], wire = []\<rparr>"
  have c1: "chunks 8192 ''cde'' = [''cde'']"
    by (simp add: chunks.simps [of 8192 "''cde''"])
  have "handle_download fault_free ''f'' 2 [''f'' \<mapsto> ''abcde''] ?c0 =
      (0, ?c0\<lparr>wire := wire ?c0 @
             [Tx (be64 (of_nat (length ''abcde''))),
              Tx (be64 (of_nat (min (unat (2::u64)) (length ''abcde''))))]
             @ map Tx (chunks 8192 (drop (min (unat (2::u64)) (length ''abcde'')) ''abcde''))\<rparr>)"
    by (rule download_streams_rest [THEN conjunct1]) simp_all
  moreover
  have "handle_download fault_free ''f'' 9 [''f'' \<mapsto> ''abcde''] ?c0 =
      (0, ?c0\<lparr>wire := wire ?c0 @
             [Tx (be64 (of_nat (length ''abcde''))),
              Tx (be64 (of_nat (min (unat (9::u64)) (length ''abcde''))))]
             @ map Tx (chunks 8192 (drop (min (unat (9::u64)) (length ''abcde'')) ''abcde''))\<rparr>)"
    by (rule download_streams_rest [THEN conjunct1]) simp_all
  ultimately show ?thesis by (simp add: c1)
qed

section \<open>The client: lemmas\<close>

lemma unat_of_nat_u32: "n < 2 ^ 32 \<Longrightarrow> unat (of_nat n :: u32) = n"
  by (simp add: unat_of_nat)

lemma wire32: "mem32 h (htonl h x) = be32 x"
  by (rule mem32_htonl)

lemma be32_not_empty [simp]: "be32 v \<noteq> []"
  using length_be32 [of v] by (metis length_0_conv zero_neq_numeral)

lemma send_header_ok:
  assumes "mode \<noteq> []" "length mode < 2 ^ 32" "filename \<noteq> []" "length filename < 2 ^ 32"
    and "\<forall>k \<le> 3. \<not> fails E OpSend k"
  shows "send_header E mode filename c =
           (True, c\<lparr>wire := wire c @ [Tx (be32 (of_nat (length mode))), Tx mode,
                                      Tx (be32 (of_nat (length filename))), Tx filename]\<rparr>)"
  using assms
  by (simp add: send_header_def Let_def wire32 send_all_eq unat_of_nat_u32)

lemma client_upload_rejects:
  assumes exists: "s filename = Some content"
    and name: "filename \<noteq> []" "length filename < 2 ^ 32"
    and ok: "\<forall>k \<le> 4. \<not> fails E OpSend k" "\<not> fails E OpStat 0" "\<not> fails E OpRecv 0"
    and reply: "inbuf c = be64 agreed @ rest"
    and viol: "agreed > of_nat (length content)"
  shows "client_upload E filename s c =
     (- 1, s, c\<lparr>inbuf := rest,
                wire := wire c @ [Tx (be32 6), Tx ''upload'', Tx (be32 (of_nat (length filename))),
                  Tx filename, Tx (be64 (of_nat (length content))), Rx (be64 agreed)]\<rparr>)"
proof -
  define c4 where "c4 = c\<lparr>wire := wire c @ [Tx (be32 6), Tx ''upload'',
      Tx (be32 (of_nat (length filename))), Tx filename]\<rparr>"
  define c5 where "c5 = c4\<lparr>wire := wire c4 @ [Tx (be64 (of_nat (length content)))]\<rparr>"
  from ok(1) have ok3: "\<forall>k \<le> 3. \<not> fails E OpSend k" and ok4: "\<not> fails E OpSend 4" by simp_all
  have hdr: "send_header E ''upload'' filename c = (True, c4)"
    using send_header_ok [of "''upload''" filename E c] name ok3 by (simp add: c4_def)
  have snd4: "send_all E 4 (mem64 (host E) (htonll_client (host E) (of_nat (length content)))) c4
      = Some c5"
    using ok4 by (simp add: wire64_client send_all_eq c5_def)
  have "inbuf c5 = be64 agreed @ rest" by (simp add: c5_def c4_def reply)
  from recv_all_prefix [OF this, of 8 E 0] ok(3)
  have rcv: "recv_all E 0 8 c5 = Some (be64 agreed, c5\<lparr>inbuf := rest, wire := wire c5 @ [Rx (be64 agreed)]\<rparr>)"
    by simp
  have "client_upload E filename s c
      = (- 1, s, c5\<lparr>inbuf := rest, wire := wire c5 @ [Rx (be64 agreed)]\<rparr>)"
    unfolding client_upload_def hdr using exists ok(2) viol
    by (simp add: Let_def snd4 rcv read64_client)
  then show ?thesis by (simp add: c5_def c4_def)
qed

text \<open>
  \<open>client_download\<close> when neither \<open>fopen\<close> fails: the local file is opened as it is, or
  created empty.
\<close>

lemma client_download_opened:
  assumes "\<not> fails E OpFopen 0" "\<not> fails E OpFopen 1"
  shows "client_download E filename s c =
     (if s filename \<noteq> None \<and> fails E OpFseeko 0 then (- 1, s, c)
      else
     (let local_offset = length (file_bytes s filename);
          s1 = s(filename \<mapsto> file_bytes s filename)
      in
      case send_header E ''download'' filename c of
        (False, c4) \<Rightarrow> (- 1, s1, c4)
      | (True, c4) \<Rightarrow>
     (case send_all E 4 (mem64 (host E) (htonll_client (host E) (of_nat local_offset))) c4 of
        None \<Rightarrow> (- 1, s1, c4)
      | Some c5 \<Rightarrow>
     (case recv_all E 0 8 c5 of
        None \<Rightarrow> (- 1, s1, c5)
      | Some (net_filesize, c6) \<Rightarrow>
     (case recv_all E 1 8 c6 of
        None \<Rightarrow> (- 1, s1, c6)
      | Some (net_server_offset, c7) \<Rightarrow>
     (let filesize = ntohll_client (host E) (load64 (host E) net_filesize);
          server_offset = ntohll_client (host E) (load64 (host E) net_server_offset)
      in
        if server_offset > filesize then (- 1, s1, c7)
        else if fails E OpFseeko 1 \<or> sint server_offset < 0 then (- 1, s1, c7)
        else
          (case download_recv_loop E 0 filename (unat filesize) (unat server_offset) s1 c7 of
             (False, s', c') \<Rightarrow> (- 1, s', c')
           | (True, s', c') \<Rightarrow> (0, remove_progress filename s', c'))))))))"
proof -
  have upd: "(s filename \<noteq> None \<and> \<not> fails E OpFopen 0) = (s filename \<noteq> None)"
    using assms(1) by simp
  have s1: "(if s filename \<noteq> None then s else s(filename \<mapsto> [])) = s(filename \<mapsto> file_bytes s filename)"
    by (cases "s filename") (simp_all add: file_bytes_def fun_upd_idem)
  have fb: "file_bytes (s(filename \<mapsto> file_bytes s filename)) filename = file_bytes s filename"
    by (simp add: file_bytes_def)
  show ?thesis
    unfolding client_download_def Let_def upd s1 fb using assms(2) by simp
qed

lemma client_download_rejects:
  assumes name: "filename \<noteq> []" "length filename < 2 ^ 32"
    and ok: "\<forall>k \<le> 1. \<not> fails E OpFopen k" "\<not> fails E OpFseeko 0"
      "\<forall>k \<le> 4. \<not> fails E OpSend k" "\<forall>k \<le> 1. \<not> fails E OpRecv k"
    and reply: "inbuf c = be64 filesize @ be64 server_offset @ rest"
    and viol: "server_offset > filesize"
  shows "client_download E filename s c =
     (- 1, s(filename \<mapsto> file_bytes s filename),
      c\<lparr>inbuf := rest,
        wire := wire c @ [Tx (be32 8), Tx ''download'', Tx (be32 (of_nat (length filename))),
          Tx filename, Tx (be64 (of_nat (length (file_bytes s filename)))),
          Rx (be64 filesize), Rx (be64 server_offset)]\<rparr>)"
proof -
  define c4 where "c4 = c\<lparr>wire := wire c @ [Tx (be32 8), Tx ''download'',
      Tx (be32 (of_nat (length filename))), Tx filename]\<rparr>"
  define c5 where "c5 = c4\<lparr>wire := wire c4 @ [Tx (be64 (of_nat (length (file_bytes s filename))))]\<rparr>"
  define c6 where "c6 = c5\<lparr>inbuf := be64 server_offset @ rest, wire := wire c5 @ [Rx (be64 filesize)]\<rparr>"
  from ok(3) have ok3: "\<forall>k \<le> 3. \<not> fails E OpSend k" and ok4: "\<not> fails E OpSend 4" by simp_all
  from ok(4) have r0: "\<not> fails E OpRecv 0" and r1: "\<not> fails E OpRecv 1" by simp_all
  from ok(1) have o0: "\<not> fails E OpFopen 0" and o1: "\<not> fails E OpFopen 1" by simp_all
  have hdr: "send_header E ''download'' filename c = (True, c4)"
    using send_header_ok [of "''download''" filename E c] name ok3 by (simp add: c4_def)
  have snd4: "send_all E 4 (mem64 (host E) (htonll_client (host E)
      (of_nat (length (file_bytes s filename))))) c4 = Some c5"
    using ok4 by (simp add: wire64_client send_all_eq c5_def)
  have "inbuf c5 = be64 filesize @ be64 server_offset @ rest" by (simp add: c5_def c4_def reply)
  from recv_all_prefix [OF this, of 8 E 0] r0
  have rcv0: "recv_all E 0 8 c5 = Some (be64 filesize, c6)"
    by (simp add: c6_def)
  have "inbuf c6 = be64 server_offset @ rest" by (simp add: c6_def)
  from recv_all_prefix [OF this, of 8 E 1] r1
  have rcv1: "recv_all E 1 8 c6 = Some (be64 server_offset,
      c6\<lparr>inbuf := rest, wire := wire c6 @ [Rx (be64 server_offset)]\<rparr>)"
    by simp
  have "client_download E filename s c
      = (- 1, s(filename \<mapsto> file_bytes s filename),
         c6\<lparr>inbuf := rest, wire := wire c6 @ [Rx (be64 server_offset)]\<rparr>)"
    unfolding client_download_opened [OF o0 o1] using ok(2) viol
    by (simp add: Let_def hdr snd4 rcv0 rcv1 read64_client del: One_nat_def)
  then show ?thesis by (simp add: c6_def c5_def c4_def)
qed


text \<open>
  Claim C4. When the request has been sent and the reply received, an agreed offset above
  the size of the file (upload), or a server offset above the file size the server
  announces (download), makes the client return \<open>-1\<close>. Its log then holds the five fields
  of the request and the reply only, so no file byte was sent or received; the upload
  leaves the file system as it was, the download leaves the local file with the bytes it
  had (created empty when it did not exist).
\<close>

theorem client_rejects_offset_beyond_size:
  "(s filename = Some content \<and> filename \<noteq> [] \<and> length filename < 2 ^ 32
      \<and> (\<forall>k \<le> 4. \<not> fails E OpSend k) \<and> \<not> fails E OpStat 0 \<and> \<not> fails E OpRecv 0
      \<and> inbuf c = be64 agreed @ rest \<and> agreed > of_nat (length content)
    \<longrightarrow> client_upload E filename s c =
          (- 1, s, c\<lparr>inbuf := rest,
             wire := wire c @ [Tx (be32 6), Tx ''upload'', Tx (be32 (of_nat (length filename))),
               Tx filename, Tx (be64 (of_nat (length content))), Rx (be64 agreed)]\<rparr>))
   \<and> (filename \<noteq> [] \<and> length filename < 2 ^ 32
      \<and> (\<forall>k \<le> 1. \<not> fails E OpFopen k) \<and> \<not> fails E OpFseeko 0
      \<and> (\<forall>k \<le> 4. \<not> fails E OpSend k) \<and> (\<forall>k \<le> 1. \<not> fails E OpRecv k)
      \<and> inbuf c = be64 filesize @ be64 server_offset @ rest' \<and> server_offset > filesize
    \<longrightarrow> client_download E filename s c =
          (- 1, s(filename \<mapsto> file_bytes s filename),
           c\<lparr>inbuf := rest',
             wire := wire c @ [Tx (be32 8), Tx ''download'', Tx (be32 (of_nat (length filename))),
               Tx filename, Tx (be64 (of_nat (length (file_bytes s filename)))),
               Rx (be64 filesize), Rx (be64 server_offset)]\<rparr>))"
  using client_upload_rejects [of s filename content E c agreed rest]
    client_download_rejects [of filename E c filesize server_offset rest' s]
  by blast

theorem client_rejects_offset_beyond_size_witness:
  "client_upload fault_free ''f'' [''f'' \<mapsto> ''abc''] \<lparr>inbuf = be64 4, wire = []\<rparr>
     = (- 1, [''f'' \<mapsto> ''abc''],
        \<lparr>inbuf = [], wire = [Tx (be32 6), Tx ''upload'', Tx (be32 1), Tx ''f'', Tx (be64 3),
                              Rx (be64 4)]\<rparr>)
   \<and> client_download fault_free ''f'' [''f'' \<mapsto> ''abc''] \<lparr>inbuf = be64 5 @ be64 6, wire = []\<rparr>
     = (- 1, [''f'' \<mapsto> ''abc''],
        \<lparr>inbuf = [], wire = [Tx (be32 8), Tx ''download'', Tx (be32 1), Tx ''f'', Tx (be64 3),
                              Rx (be64 5), Rx (be64 6)]\<rparr>)"
  using
    client_rejects_offset_beyond_size [where E = fault_free and filename = "''f''"
      and s = "[''f'' \<mapsto> ''abc'']" and content = "''abc''"
      and c = "\<lparr>inbuf = be64 4, wire = []\<rparr>" and agreed = 4 and rest = "[]"]
    client_rejects_offset_beyond_size [where E = fault_free and filename = "''f''"
      and s = "[''f'' \<mapsto> ''abc'']"
      and c = "\<lparr>inbuf = be64 5 @ be64 6, wire = []\<rparr>" and filesize = 5 and server_offset = 6
      and rest' = "[]"]
  by simp

section \<open>A download that is already complete\<close>





lemma progress_path_differs:
  assumes "length fname < 4086"
  shows "progress_path fname \<noteq> fname" and "progress_tmp_path fname \<noteq> fname"
proof -
  have "length (progress_path fname) = length fname + 9"
    using assms by (simp add: progress_path_def snprintf4096_def)
  then show "progress_path fname \<noteq> fname" by auto
  have "length (progress_tmp_path fname) > length fname"
    using assms by (simp add: progress_tmp_path_def snprintf4096_def)
  then show "progress_tmp_path fname \<noteq> fname" by auto
qed





section \<open>The ledger across a client transfer\<close>

text \<open>
  For a file name shorter than 4086 bytes the ledger path differs from the temporary path and
  from the file's own path. Then a transfer that returns 0 leaves no ledger, and, as long as
  no \<open>fflush\<close> of a ledger write fails, a transfer that returns \<open>- 1\<close>, whatever other call
  failed, leaves the ledger as it was before the transfer or holding a complete value
  written during it.
\<close>

lemma write_progress_atomic_ledger:
  assumes "length fname < 4086" and "\<not> fails E OpFflush k"
  shows "snd (write_progress_atomic E k fname v s) (progress_path fname) = s (progress_path fname)
         \<or> snd (write_progress_atomic E k fname v s) (progress_path fname) = Some (ledger_text v)"
  using write_progress_atomic_short_names [OF assms, of v s
      "fst (write_progress_atomic E k fname v s)" "snd (write_progress_atomic E k fname v s)"]
  by auto

lemma upload_send_loop_ledger:
  assumes "length filename < 4086" and "\<forall>k. \<not> fails E OpFflush k"
  shows "fst (snd (upload_send_loop E i filename t rest s c)) (progress_path filename)
           = s (progress_path filename)
         \<or> (\<exists>v. fst (snd (upload_send_loop E i filename t rest s c)) (progress_path filename)
               = Some (ledger_text v))"
  using assms
proof (induction E i filename t rest s c rule: upload_send_loop.induct)
  case (1 E i filename total_sent rest s c)
  note short = \<open>length filename < 4086\<close> and noflush = \<open>\<forall>k. \<not> fails E OpFflush k\<close>
  from noflush have flush: "\<not> fails E OpFflush i" by simp
  show ?case
  proof (cases "fails E OpFread i \<or> take 8192 rest = []
      \<or> send_all E (5 + i) (take 8192 rest) c = None")
    case True
    then show ?thesis by (subst upload_send_loop.simps) auto
  next
    case False
    then obtain c' where snd: "send_all E (5 + i) (take 8192 rest) c = Some c'" by auto
    let ?v = "of_nat (total_sent + length (take 8192 rest)) :: u64"
    let ?s = "snd (write_progress_atomic E i filename ?v s)"
    from False have a: "\<not> fails E OpFread i" and b: "take 8192 rest \<noteq> []" by auto
    have step: "upload_send_loop E i filename total_sent rest s c
        = upload_send_loop E (Suc i) filename (total_sent + length (take 8192 rest))
            (drop 8192 rest) ?s c'"
      using a b snd by (subst upload_send_loop.simps) auto
    define r where "r = fst (snd (upload_send_loop E (Suc i) filename
        (total_sent + length (take 8192 rest)) (drop 8192 rest) ?s c')) (progress_path filename)"
    define w where "w = ?s (progress_path filename)"
    from "1.IH" [OF a b snd short noflush]
    have "r = w \<or> (\<exists>v. r = Some (ledger_text v))" unfolding r_def w_def .
    moreover from write_progress_atomic_ledger [OF short flush, of ?v s]
    have "w = s (progress_path filename) \<or> w = Some (ledger_text ?v)" unfolding w_def .
    ultimately have "r = s (progress_path filename) \<or> (\<exists>v. r = Some (ledger_text v))"
      by blast
    then show ?thesis unfolding step r_def .
  qed
qed

lemma download_recv_loop_ledger:
  assumes "length filename < 4086" and "\<forall>k. \<not> fails E OpFflush k"
  shows "fst (snd (download_recv_loop E i filename filesize t s c)) (progress_path filename)
           = s (progress_path filename)
         \<or> (\<exists>v. fst (snd (download_recv_loop E i filename filesize t s c)) (progress_path filename)
               = Some (ledger_text v))"
  using assms
proof (induction E i filename filesize t s c rule: download_recv_loop.induct)
  case (1 E i filename filesize total_received s c)
  note short = \<open>length filename < 4086\<close> and noflush = \<open>\<forall>k. \<not> fails E OpFflush k\<close>
  from noflush have flush: "\<not> fails E OpFflush i" by simp
  let ?want = "if filesize - total_received > 8192 then 8192 else filesize - total_received"
  show ?case
  proof (cases "total_received < filesize \<and> recv_all E (2 + i) ?want c \<noteq> None
      \<and> \<not> fails E OpFwrite i")
    case False
    then have "fst (snd (download_recv_loop E i filename filesize total_received s c)) = s"
      by (subst download_recv_loop.simps) (auto simp add: Let_def split: option.splits)
    then show ?thesis by simp
  next
    case True
    then obtain buf c' where rcv: "recv_all E (2 + i) ?want c = Some (buf, c')" by auto
    from True have a: "total_received < filesize" and b: "\<not> fails E OpFwrite i" by auto
    let ?v = "of_nat (total_received + ?want) :: u64"
    let ?s1 = "s(filename \<mapsto> pwrite total_received buf (file_bytes s filename))"
    let ?s = "snd (write_progress_atomic E i filename ?v ?s1)"
    have step: "download_recv_loop E i filename filesize total_received s c
        = download_recv_loop E (Suc i) filename filesize (total_received + ?want) ?s c'"
      using a b rcv by (subst download_recv_loop.simps) (simp add: Let_def)
    define r where "r = fst (snd (download_recv_loop E (Suc i) filename filesize
        (total_received + ?want) ?s c')) (progress_path filename)"
    define w where "w = ?s (progress_path filename)"
    from "1.IH" [OF a refl rcv refl b short noflush]
    have "r = w \<or> (\<exists>v. r = Some (ledger_text v))" unfolding r_def w_def .
    moreover from write_progress_atomic_ledger [OF short flush, of ?v ?s1]
    have "w = ?s1 (progress_path filename) \<or> w = Some (ledger_text ?v)" unfolding w_def .
    moreover have "?s1 (progress_path filename) = s (progress_path filename)"
      using progress_path_differs(1) [OF short] by simp
    ultimately have "r = s (progress_path filename) \<or> (\<exists>v. r = Some (ledger_text v))"
      by metis
    then show ?thesis unfolding step r_def .
  qed
qed

lemma ledger_after_upload:
  assumes short: "length filename < 4086" and noflush: "\<forall>k. \<not> fails E OpFflush k"
    and run: "client_upload E filename s c = (rc, s', c')"
  shows "(rc = 0 \<and> s' (progress_path filename) = None)
         \<or> (rc = - 1 \<and> (s' (progress_path filename) = s (progress_path filename)
                         \<or> (\<exists>v. s' (progress_path filename) = Some (ledger_text v))))"
proof -
  have loop: "upload_send_loop E 0 filename t rest s c1 = (b, s1, c2) \<Longrightarrow>
      s1 (progress_path filename) = s (progress_path filename)
      \<or> (\<exists>v. s1 (progress_path filename) = Some (ledger_text v))" for t rest c1 b s1 c2
    using upload_send_loop_ledger [OF short noflush, of 0 t rest s c1] by simp
  show ?thesis
    using run
    by (auto simp add: client_upload_def Let_def remove_progress_def dest: loop
        split: prod.splits option.splits bool.splits if_splits)
qed

lemma ledger_after_download:
  assumes short: "length filename < 4086" and noflush: "\<forall>k. \<not> fails E OpFflush k"
    and run: "client_download E filename s c = (rc, s', c')"
  shows "(rc = 0 \<and> s' (progress_path filename) = None)
         \<or> (rc = - 1 \<and> (s' (progress_path filename) = s (progress_path filename)
                         \<or> (\<exists>v. s' (progress_path filename) = Some (ledger_text v))))"
proof -
  define s1 where "s1 = (if s filename \<noteq> None \<and> \<not> fails E OpFopen 0 then s
      else s(filename \<mapsto> []))"
  have same: "s1 (progress_path filename) = s (progress_path filename)"
    using progress_path_differs(1) [OF short] by (simp add: s1_def)
  have loop: "download_recv_loop E 0 filename n t s1 c1 = (b, s2, c2) \<Longrightarrow>
      s2 (progress_path filename) = s (progress_path filename)
      \<or> (\<exists>v. s2 (progress_path filename) = Some (ledger_text v))" for n t c1 b s2 c2
    using download_recv_loop_ledger [OF short noflush, of 0 n t s1 c1] same by simp
  from run have "client_download E filename s c = (rc, s', c')" .
  then show ?thesis
    unfolding client_download_def Let_def s1_def [symmetric] using same
    by (auto simp add: remove_progress_def fun_upd_same dest: loop
        split: prod.splits option.splits bool.splits if_splits)
qed

text \<open>\<open>client_download\<close> up to its receive loop, when the calls before the loop succeed.\<close>

lemma client_download_streaming:
  assumes name: "filename \<noteq> []" "length filename < 2 ^ 32"
    and ok: "\<forall>k \<le> 1. \<not> fails E OpFopen k" "\<not> fails E OpFseeko 0" "\<not> fails E OpFseeko 1"
      "\<forall>k \<le> 4. \<not> fails E OpSend k" "\<forall>k \<le> 1. \<not> fails E OpRecv k"
    and reply: "inbuf c = be64 filesize @ be64 server_offset @ rest"
    and le: "\<not> server_offset > filesize" and pos: "\<not> sint server_offset < 0"
  shows "client_download E filename s c =
     (case download_recv_loop E 0 filename (unat filesize) (unat server_offset)
             (s(filename \<mapsto> file_bytes s filename))
             (c\<lparr>inbuf := rest,
                wire := wire c @ [Tx (be32 8), Tx ''download'', Tx (be32 (of_nat (length filename))),
                  Tx filename, Tx (be64 (of_nat (length (file_bytes s filename)))),
                  Rx (be64 filesize), Rx (be64 server_offset)]\<rparr>) of
        (False, s', c') \<Rightarrow> (- 1, s', c')
      | (True, s', c') \<Rightarrow> (0, remove_progress filename s', c'))"
proof -
  define c4 where "c4 = c\<lparr>wire := wire c @ [Tx (be32 8), Tx ''download'',
      Tx (be32 (of_nat (length filename))), Tx filename]\<rparr>"
  define c5 where "c5 = c4\<lparr>wire := wire c4 @ [Tx (be64 (of_nat (length (file_bytes s filename))))]\<rparr>"
  define c6 where "c6 = c5\<lparr>inbuf := be64 server_offset @ rest, wire := wire c5 @ [Rx (be64 filesize)]\<rparr>"
  define c7 where "c7 = c6\<lparr>inbuf := rest, wire := wire c6 @ [Rx (be64 server_offset)]\<rparr>"
  from ok(4) have ok3: "\<forall>k \<le> 3. \<not> fails E OpSend k" and ok4: "\<not> fails E OpSend 4" by simp_all
  from ok(5) have r0: "\<not> fails E OpRecv 0" and r1: "\<not> fails E OpRecv 1" by simp_all
  from ok(1) have o0: "\<not> fails E OpFopen 0" and o1: "\<not> fails E OpFopen 1" by simp_all
  have hdr: "send_header E ''download'' filename c = (True, c4)"
    using send_header_ok [of "''download''" filename E c] name ok3 by (simp add: c4_def)
  have snd4: "send_all E 4 (mem64 (host E) (htonll_client (host E)
      (of_nat (length (file_bytes s filename))))) c4 = Some c5"
    using ok4 by (simp add: wire64_client send_all_eq c5_def)
  have "inbuf c5 = be64 filesize @ be64 server_offset @ rest" by (simp add: c5_def c4_def reply)
  from recv_all_prefix [OF this, of 8 E 0] r0
  have rcv0: "recv_all E 0 8 c5 = Some (be64 filesize, c6)"
    by (simp add: c6_def)
  have "inbuf c6 = be64 server_offset @ rest" by (simp add: c6_def)
  from recv_all_prefix [OF this, of 8 E 1] r1
  have rcv1: "recv_all E 1 8 c6 = Some (be64 server_offset, c7)"
    by (simp add: c7_def)
  have c7: "c7 = c\<lparr>inbuf := rest,
                wire := wire c @ [Tx (be32 8), Tx ''download'', Tx (be32 (of_nat (length filename))),
                  Tx filename, Tx (be64 (of_nat (length (file_bytes s filename)))),
                  Rx (be64 filesize), Rx (be64 server_offset)]\<rparr>"
    by (simp add: c7_def c6_def c5_def c4_def)
  have "client_download E filename s c =
     (case download_recv_loop E 0 filename (unat filesize) (unat server_offset)
             (s(filename \<mapsto> file_bytes s filename)) c7 of
        (False, s', c') \<Rightarrow> (- 1, s', c')
      | (True, s', c') \<Rightarrow> (0, remove_progress filename s', c'))"
    unfolding client_download_opened [OF o0 o1] using ok(2,3) le pos
    by (simp add: Let_def hdr snd4 rcv0 rcv1 read64_client del: One_nat_def)
  then show ?thesis unfolding c7 .
qed

lemma write_progress_fprintf_fails:
  assumes "length fname = 4086"
  shows "snd (write_progress_atomic fprintf_fails k fname v s) (progress_path fname) = None"
  using progress_paths_collide [OF assms]
  by (simp add: write_progress_atomic_def write_progress_steps_def Let_def fprintf_fails_def)

lemma long_name_facts:
  "long_name \<noteq> []" "length long_name < 2 ^ 32" "progress_path long_name \<noteq> long_name"
proof -
  show "long_name \<noteq> []" using length_long_name by auto
  show "length long_name < 2 ^ 32" by (simp add: length_long_name)
  have "length (progress_path long_name) = 4095"
    by (simp add: progress_path_def snprintf4096_def length_long_name)
  then show "progress_path long_name \<noteq> long_name" using length_long_name by auto
qed


lemma fails_fprintf_fails [simp]:
  "fails fprintf_fails op k = (op = OpFprintf)" "host fprintf_fails = LittleEndian"
  by (simp_all add: fprintf_fails_def)

lemma download_loop_loses_ledger:
  assumes len: "length fname = 4086" and buf: "inbuf c = replicate 8192 x"
  shows "\<exists>s' c'. download_recv_loop fprintf_fails 0 fname 16385 8192 s c = (False, s', c')
           \<and> s' (progress_path fname) = None"
proof -
  define c8 where "c8 = c\<lparr>inbuf := [], wire := wire c @ [Rx (replicate 8192 x)]\<rparr>"
  define s2 where "s2 = snd (write_progress_atomic fprintf_fails 0 fname 16384
      (s(fname \<mapsto> pwrite 8192 (replicate 8192 x) (file_bytes s fname))))"
  have rcv: "recv_all fprintf_fails 2 8192 c = Some (replicate 8192 x, c8)"
    using buf by (simp add: recv_all_def c8_def)
  have rcv2: "recv_all fprintf_fails k (Suc 0) c8 = None" for k
    by (simp add: recv_all_def c8_def)
  have second: "download_recv_loop fprintf_fails (Suc 0) fname 16385 16384 st c8
      = (False, st, c8)" for st
    by (subst download_recv_loop.simps) (simp add: rcv2)
  have first: "download_recv_loop fprintf_fails 0 fname 16385 8192 s c = (False, s2, c8)"
    by (subst download_recv_loop.simps) (simp add: rcv second s2_def)
  have "s2 (progress_path fname) = None"
    unfolding s2_def by (rule write_progress_fprintf_fails [OF len])
  with first show ?thesis by blast
qed

text \<open>
  Claim C7, at the input where the client departs from it. The file name has 4086 bytes, so
  \<open>prog_tmp\<close> is cut to the path of the ledger (as for C6); the local file holds 8192
  bytes and the ledger the value 8192. The peer answers a download with the size 16385 and
  the offset 8192, sends 8192 bytes and closes. The client writes these bytes and calls
  \<open>write_progress_atomic\<close>, in which \<open>fprintf\<close> fails: \<open>fopen(prog_tmp, "w")\<close> has emptied
  the ledger and \<open>unlink(prog_tmp)\<close> removes it; the failure is only a warning. The next
  \<open>recv_all\<close> finds the stream closed and \<open>client_download\<close> returns \<open>- 1\<close>: the transfer
  failed and the ledger, which held 8192 before, no longer exists. A transfer that returns 0
  always removes the ledger; for shorter names, and as long as no \<open>fflush\<close> of a ledger write
  fails, a failed transfer keeps it (\<open>ledger_after_upload\<close>, \<open>ledger_after_download\<close>).
\<close>

theorem ledger_lost_on_failed_download:
  "fst (client_download fprintf_fails long_name
         [long_name \<mapsto> replicate 8192 (CHR ''a''), progress_path long_name \<mapsto> ledger_text 8192]
         \<lparr>inbuf = be64 16385 @ be64 8192 @ replicate 8192 (CHR ''b''), wire = []\<rparr>) = - 1
   \<and> fst (snd (client_download fprintf_fails long_name
         [long_name \<mapsto> replicate 8192 (CHR ''a''), progress_path long_name \<mapsto> ledger_text 8192]
         \<lparr>inbuf = be64 16385 @ be64 8192 @ replicate 8192 (CHR ''b''), wire = []\<rparr>))
       (progress_path long_name) = None
   \<and> [long_name \<mapsto> replicate 8192 (CHR ''a''), progress_path long_name \<mapsto> ledger_text 8192]
       (progress_path long_name) = Some (ledger_text 8192)"
proof -
  let ?s0 = "[long_name \<mapsto> replicate 8192 (CHR ''a''), progress_path long_name \<mapsto> ledger_text 8192]"
  let ?c0 = "\<lparr>inbuf = be64 16385 @ be64 8192 @ replicate 8192 (CHR ''b''), wire = []\<rparr>"
  let ?c7 = "?c0\<lparr>inbuf := replicate 8192 (CHR ''b''),
                wire := wire ?c0 @ [Tx (be32 8), Tx ''download'', Tx (be32 (of_nat (length long_name))),
                  Tx long_name, Tx (be64 (of_nat (length (file_bytes ?s0 long_name)))),
                  Rx (be64 16385), Rx (be64 8192)]\<rparr>"
  let ?s1 = "?s0(long_name \<mapsto> file_bytes ?s0 long_name)"
  have run: "client_download fprintf_fails long_name ?s0 ?c0 =
     (case download_recv_loop fprintf_fails 0 long_name (unat (16385::u64)) (unat (8192::u64)) ?s1 ?c7 of
        (False, s', c') \<Rightarrow> (- 1, s', c')
      | (True, s', c') \<Rightarrow> (0, remove_progress long_name s', c'))"
    by (rule client_download_streaming) (simp_all add: long_name_facts length_long_name)
  obtain s' c' where loop: "download_recv_loop fprintf_fails 0 long_name 16385 8192 ?s1 ?c7
      = (False, s', c')" and lost: "s' (progress_path long_name) = None"
    using download_loop_loses_ledger [OF length_long_name, of ?c7 "CHR ''b''" ?s1] by auto
  from run loop have "client_download fprintf_fails long_name ?s0 ?c0 = (- 1, s', c')"
    by simp
  with lost show ?thesis by simp
qed

end
